theory Spec2Isabelle
  imports Main "HOL-Library.Sublist"
begin

section \<open>Values, exceptions and the outside world\<close>

text \<open>
  The catalog embedded in the page is JSON. The fields the downloader reads are JSON
  scalars; \<open>py_str\<close> is Python's \<open>str()\<close>, which an f-string applies to them.
  Floats and nested values are outside this model.
\<close>

datatype jval = JNull | JBool bool | JInt int | JStr string

function str_nat :: "nat \<Rightarrow> string" where
  "str_nat n =
     (if n < 10 then [''0123456789'' ! n]
      else str_nat (n div 10) @ [''0123456789'' ! (n mod 10)])"
  by pat_completeness auto
termination
  by (relation "measure id") auto

declare str_nat.simps [simp del]

fun py_str :: "jval \<Rightarrow> string" where
  "py_str JNull = ''None''"
| "py_str (JBool b) = (if b then ''True'' else ''False'')"
| "py_str (JInt i) = (if i < 0 then CHR ''-'' # str_nat (nat (- i)) else str_nat (nat i))"
| "py_str (JStr s) = s"

text \<open>
  A path is the tuple of its parts, as \<open>PurePosixPath.parts\<close> gives it: an absolute
  path starts with the part \<open>/\<close>. Parts are taken literally (no symbolic links, no
  resolution of \<open>..\<close>).
\<close>

type_synonym path = "string list"

text \<open>
  Every \<open>raise\<close> of the source and every library exception it can meet is a value.
  \<open>FailedToDownload p es\<close> is the source's
  \<open>Exception(f'Failed to download {to_path}: {exceptions}')\<close>, kept structured: the
  target and the list of \<open>[url, e]\<close> pairs that the message prints.
\<close>

datatype exn =
    Exception string
  | FailedToDownload path "(string \<times> exn) list"
  | ClientResponseError nat
  | ClientConnectionError
  | ConnectionError
  | FileExistsError
  | FileNotFoundError
  | NotADirectoryError
  | IsADirectoryError
  | KeyError string
  | TypeError
  | IndexError
  | JSONDecodeError
  | OSError string

datatype node = File string | Dir

text \<open>
  What the operating system refuses for reasons that the tree of files does not show
  (permissions, a name that is too long, a full disk): for a path, either making it
  (\<open>os.mkdir\<close>, or \<open>open\<close> for writing) raises, or \<open>open\<close> succeeds and \<open>write\<close>
  raises after a part of the content has reached the file.
\<close>

datatype fault = Refused exn | WriteFault exn string

record request =
  req_url :: string
  req_headers :: "(string \<times> string) list"

datatype log_record = LogInfo string | LogError string | LogException exn

text \<open>
  The world the program acts on: the file system, the requests sent so far, the
  records the \<open>logging\<close> module emitted (the level is INFO, so \<open>logging.debug\<close>
  emits nothing and is left out of the model), and the faults of the operating system,
  which the program never changes.
\<close>

record world =
  fs :: "path \<Rightarrow> node option"
  requests :: "request list"
  logged :: "log_record list"
  faults :: "path \<Rightarrow> fault option"

text \<open>The origin: what a GET of a URL with the given headers is answered with.\<close>

datatype reply = Unreachable | Response nat string

type_synonym network = "string \<Rightarrow> (string \<times> string) list \<Rightarrow> reply"

definition send :: "string \<Rightarrow> (string \<times> string) list \<Rightarrow> world \<Rightarrow> world" where
  "send u hs w = w\<lparr>requests := requests w @ [\<lparr>req_url = u, req_headers = hs\<rparr>]\<rparr>"

text \<open>\<open>requests.get(url).text\<close>: no header is passed and the status is not checked.\<close>

definition requests_get :: "network \<Rightarrow> string \<Rightarrow> world \<Rightarrow> (exn + string) \<times> world" where
  "requests_get net u w =
     (case net u [] of
        Unreachable \<Rightarrow> (Inl ConnectionError, send u [] w)
      | Response st b \<Rightarrow> (Inr b, send u [] w))"

section \<open>The catalog\<close>

type_synonym jdict = "(string \<times> jval) list"

record manga_data =
  manga :: jdict
  chapters :: "jdict list"

record chapter_entry =
  name :: jval
  volume :: jval
  number :: jval
  url :: string

record downloader =
  data :: manga_data
  parsed_chapters :: "chapter_entry list"

definition base_url :: string where
  "base_url = ''https://mangalib.me/''"

definition startswith :: "string \<Rightarrow> string \<Rightarrow> bool" where
  "startswith s p = prefix p s"

text \<open>\<open>d[k]\<close> on a dict.\<close>

definition getitem :: "jdict \<Rightarrow> string \<Rightarrow> exn + jval" where
  "getitem d k = (case map_of d k of None \<Rightarrow> Inl (KeyError k) | Some v \<Rightarrow> Inr v)"

text \<open>
  \<open>_get_manga_data\<close>. The parameter \<open>loads_data\<close> stands for the two library calls
  \<open>json.loads(re.findall(r'window\.__DATA__ = (.*);$', html, re.MULTILINE)[0])\<close>.
\<close>

definition get_manga_data ::
  "network \<Rightarrow> (string \<Rightarrow> exn + manga_data) \<Rightarrow> string \<Rightarrow> world \<Rightarrow> (exn + manga_data) \<times> world" where
  "get_manga_data net loads_data manga_url w =
     (case requests_get net manga_url w of
        (Inl e, w') \<Rightarrow> (Inl e, w')
      | (Inr html, w') \<Rightarrow> (loads_data html, w'))"

text \<open>One element of the comprehension of \<open>_parse_chapters\<close>.\<close>

definition parse_chapter :: "string \<Rightarrow> jdict \<Rightarrow> exn + chapter_entry" where
  "parse_chapter base c =
     (case getitem c ''chapter_name'' of Inl e \<Rightarrow> Inl e | Inr n \<Rightarrow>
      case getitem c ''chapter_volume'' of Inl e \<Rightarrow> Inl e | Inr v \<Rightarrow>
      case getitem c ''chapter_number'' of Inl e \<Rightarrow> Inl e | Inr k \<Rightarrow>
        Inr \<lparr>name = n, volume = v, number = k,
             url = base @ ''/v'' @ py_str v @ ''/c'' @ py_str k\<rparr>)"

text \<open>A list comprehension whose element expression can raise: the first raise ends it.\<close>

fun comprehension :: "('a \<Rightarrow> exn + 'b) \<Rightarrow> 'a list \<Rightarrow> exn + 'b list" where
  "comprehension f [] = Inr []"
| "comprehension f (x # xs) =
     (case f x of
        Inl e \<Rightarrow> Inl e
      | Inr y \<Rightarrow> (case comprehension f xs of Inl e \<Rightarrow> Inl e | Inr ys \<Rightarrow> Inr (y # ys)))"

definition parse_chapters :: "manga_data \<Rightarrow> exn + chapter_entry list" where
  "parse_chapters d =
     (case getitem (manga d) ''slug'' of
        Inl e \<Rightarrow> Inl e
      | Inr (JStr slug) \<Rightarrow> comprehension (parse_chapter (base_url @ slug)) (rev (chapters d))
      | Inr _ \<Rightarrow> Inl TypeError)"

text \<open>\<open>MangaDownloader.__init__\<close>.\<close>

definition init ::
  "network \<Rightarrow> (string \<Rightarrow> exn + manga_data) \<Rightarrow> string \<Rightarrow> world \<Rightarrow> (exn + downloader) \<times> world" where
  "init net loads_data manga_url w =
     (if \<not> startswith manga_url base_url
      then (Inl (Exception ''URL is not from mangalib.me''), w)
      else
        (case get_manga_data net loads_data manga_url w of
           (Inl e, w') \<Rightarrow>
             (Inl e, w'\<lparr>logged := logged w' @
                [LogError ''Failed to get manga info. Ensure the URL is correct.'']\<rparr>)
         | (Inr d, w') \<Rightarrow>
             (case parse_chapters d of
                Inl e \<Rightarrow> (Inl e, w')
              | Inr cs \<Rightarrow> (Inr \<lparr>data = d, parsed_chapters = cs\<rparr>, w'))))"

section \<open>The file system\<close>

text \<open>
  The anchors \<open>.\<close> (no part) and \<open>/\<close> always exist as directories; \<open>parent\<close> is
  \<open>Path.parent\<close>, \<open>exists\<close> is \<open>Path.exists\<close>.
\<close>

definition parent :: "path \<Rightarrow> path" where
  "parent p = (if p = [''/''] then p else butlast p)"

definition lookup :: "(path \<Rightarrow> node option) \<Rightarrow> path \<Rightarrow> node option" where
  "lookup f p = (if p = [] \<or> p = [''/''] then Some Dir else f p)"

definition exists :: "(path \<Rightarrow> node option) \<Rightarrow> path \<Rightarrow> bool" where
  "exists f p = (lookup f p \<noteq> None)"

definition is_dir :: "(path \<Rightarrow> node option) \<Rightarrow> path \<Rightarrow> bool" where
  "is_dir f p = (lookup f p = Some Dir)"

text \<open>
  \<open>os.mkdir\<close>: the path must be new and its parent a directory, and the operating
  system must not refuse it (\<open>flt\<close> are the faults of the world).
\<close>

definition os_mkdir ::
  "(path \<Rightarrow> fault option) \<Rightarrow> (path \<Rightarrow> node option) \<Rightarrow> path \<Rightarrow> exn + (path \<Rightarrow> node option)" where
  "os_mkdir flt f p =
     (if lookup f p \<noteq> None then Inl FileExistsError
      else
        (case lookup f (parent p) of
           None \<Rightarrow> Inl FileNotFoundError
         | Some (File c) \<Rightarrow> Inl NotADirectoryError
         | Some Dir \<Rightarrow>
             (case flt p of
                Some (Refused e) \<Rightarrow> Inl e
              | _ \<Rightarrow> Inr (f(p \<mapsto> Dir)))))"

text \<open>
  \<open>Path.mkdir(parents, exist_ok)\<close> as pathlib writes it: try \<open>os.mkdir\<close>; on
  FileNotFoundError make the parent (with \<open>parents=True, exist_ok=True\<close>) and try once
  more; on any other OSError give up unless \<open>exist_ok\<close> holds and the path is a
  directory.
\<close>

function mkdir ::
  "(path \<Rightarrow> fault option) \<Rightarrow> (path \<Rightarrow> node option) \<Rightarrow> path \<Rightarrow> bool \<Rightarrow> bool \<Rightarrow>
   exn + (path \<Rightarrow> node option)" where
  "mkdir flt f p parents exist_ok =
     (case os_mkdir flt f p of
        Inr f' \<Rightarrow> Inr f'
      | Inl e \<Rightarrow>
          if e = FileNotFoundError then
            (if \<not> parents \<or> parent p = p then Inl e
             else
               (case mkdir flt f (parent p) True True of
                  Inl e' \<Rightarrow> Inl e'
                | Inr f1 \<Rightarrow> mkdir flt f1 p False exist_ok))
          else if \<not> exist_ok \<or> \<not> is_dir f p then Inl e
          else Inr f)"
  by pat_completeness auto
termination
proof (relation "measure (\<lambda>(flt, f, p, parents, exist_ok). 2 * length p + (if parents then 1 else 0))")
  show "wf (measure (\<lambda>(flt, f, p, parents, exist_ok). 2 * length p + (if parents then 1 else 0)))"
    by simp
next
  fix flt :: "path \<Rightarrow> fault option"
  fix f :: "path \<Rightarrow> node option" and p :: path and parents exist_ok :: bool
  assume "\<not> (\<not> parents \<or> parent p = p)"
  then have "p \<noteq> []" "parent p = butlast p"
    by (auto simp: parent_def split: if_splits)
  then have "length (parent p) < length p"
    by simp
  then show "((flt, f, parent p, True, True), (flt, f, p, parents, exist_ok))
      \<in> measure (\<lambda>(flt, f, p, parents, exist_ok). 2 * length p + (if parents then 1 else 0))"
    by simp
next
  fix flt :: "path \<Rightarrow> fault option"
  fix f f1 :: "path \<Rightarrow> node option" and p :: path and parents exist_ok :: bool
  assume "\<not> (\<not> parents \<or> parent p = p)"
  then show "((flt, f1, p, False, exist_ok), (flt, f, p, parents, exist_ok))
      \<in> measure (\<lambda>(flt, f, p, parents, exist_ok). 2 * length p + (if parents then 1 else 0))"
    by simp
qed

declare mkdir.simps [simp del]

text \<open>
  \<open>with open(to_path, 'wb') as f: f.write(page)\<close>. \<open>write_file\<close> is the case in which
  the tree allows the file to be opened: unless the operating system refuses, the file is
  created or truncated and holds \<open>page\<close>. \<open>open_write\<close> adds the errors that the tree
  itself gives: the path is a directory, or its parent is missing or is not a directory.
\<close>

definition write_file :: "path \<Rightarrow> string \<Rightarrow> world \<Rightarrow> (exn + unit) \<times> world" where
  "write_file p page w =
     (case faults w p of
        None \<Rightarrow> (Inr (), w\<lparr>fs := (fs w)(p \<mapsto> File page)\<rparr>)
      | Some (Refused e) \<Rightarrow> (Inl e, w)
      | Some (WriteFault e part) \<Rightarrow> (Inl e, w\<lparr>fs := (fs w)(p \<mapsto> File part)\<rparr>))"

definition open_write :: "path \<Rightarrow> string \<Rightarrow> world \<Rightarrow> (exn + unit) \<times> world" where
  "open_write p page w =
     (case lookup (fs w) p of
        Some Dir \<Rightarrow> (Inl IsADirectoryError, w)
      | Some (File c) \<Rightarrow> write_file p page w
      | None \<Rightarrow>
          (case lookup (fs w) (parent p) of
             Some Dir \<Rightarrow> write_file p page w
           | Some (File c) \<Rightarrow> (Inl NotADirectoryError, w)
           | None \<Rightarrow> (Inl FileNotFoundError, w)))"

section \<open>Fetching one item\<close>

text \<open>
  \<open>download_url\<close> is the source's inner function \<open>download__\<close> and
  \<open>download_item\<close> its \<open>download_\<close> (a name cannot end in an underscore here).
  \<open>download__\<close>: one GET with the referer header, recorded by \<open>send\<close>;
  \<open>read_response\<close> is what follows the request: \<open>raise_for_status\<close> raises for a
  status of 400 and above, an empty body raises \<open>Exception('Empty response')\<close>, and
  a transport failure raises in the request itself.
\<close>

definition referer :: "(string \<times> string) list" where
  "referer = [(''referer'', ''https://mangalib.me/'')]"

definition read_response :: "reply \<Rightarrow> exn + string" where
  "read_response r =
     (case r of
        Unreachable \<Rightarrow> Inl ClientConnectionError
      | Response st resp \<Rightarrow>
          if 400 \<le> st then Inl (ClientResponseError st)
          else if resp = [] then Inl (Exception ''Empty response'')
          else Inr resp)"

definition download_url :: "network \<Rightarrow> string \<Rightarrow> world \<Rightarrow> (exn + string) \<times> world" where
  "download_url net u w = (read_response (net u referer), send u referer w)"

text \<open>The body of the \<open>try\<close> of \<open>download_\<close>: fetch, then write the target.\<close>

definition attempt :: "network \<Rightarrow> path \<Rightarrow> string \<Rightarrow> world \<Rightarrow> (exn + unit) \<times> world" where
  "attempt net to_path u w =
     (case download_url net u w of
        (Inl e, w') \<Rightarrow> (Inl e, w')
      | (Inr page, w') \<Rightarrow> open_write to_path page w')"

text \<open>The \<open>except\<close> clause: \<open>logging.exception(e)\<close>.\<close>

definition log_exception :: "exn \<Rightarrow> world \<Rightarrow> world" where
  "log_exception e w = w\<lparr>logged := logged w @ [LogException e]\<rparr>"

text \<open>The \<open>for url in urls\<close> loop of \<open>download_\<close> and the \<open>raise\<close> after it.\<close>

fun mirrors ::
  "network \<Rightarrow> path \<Rightarrow> string list \<Rightarrow> (string \<times> exn) list \<Rightarrow> world \<Rightarrow> (exn + unit) \<times> world" where
  "mirrors net to_path [] exceptions w = (Inl (FailedToDownload to_path exceptions), w)"
| "mirrors net to_path (u # us) exceptions w =
     (case attempt net to_path u w of
        (Inr r, w') \<Rightarrow> (Inr (), w')
      | (Inl e, w') \<Rightarrow> mirrors net to_path us (exceptions @ [(u, e)]) (log_exception e w'))"

definition download_item :: "network \<Rightarrow> path \<Rightarrow> string list \<Rightarrow> world \<Rightarrow> (exn + unit) \<times> world" where
  "download_item net to_path urls w =
     (if exists (fs w) to_path then (Inr (), w)
      else
        (case mkdir (faults w) (fs w) (parent to_path) True True of
           Inl e \<Rightarrow> (Inl e, w)
         | Inr f' \<Rightarrow> mirrors net to_path urls [] (w\<lparr>fs := f'\<rparr>)))"

section \<open>Notions used in the statements\<close>

text \<open>
  The requests that fetching the mirrors \<open>us\<close> sends, the \<open>[url, e]\<close> pairs that
  failing mirrors leave in \<open>exceptions\<close>, and the file system states in which
  \<open>open(to_path, 'wb')\<close> succeeds.
\<close>

definition sent :: "string list \<Rightarrow> request list" where
  "sent us = map (\<lambda>u. \<lparr>req_url = u, req_headers = referer\<rparr>) us"

definition failures :: "network \<Rightarrow> string list \<Rightarrow> (string \<times> exn) list" where
  "failures net us = map (\<lambda>u. (u, projl (read_response (net u referer)))) us"

definition writable :: "(path \<Rightarrow> node option) \<Rightarrow> path \<Rightarrow> bool" where
  "writable f p =
     (case lookup f p of
        Some Dir \<Rightarrow> False
      | Some (File c) \<Rightarrow> True
      | None \<Rightarrow> is_dir f (parent p))"

text \<open>
  The error a mirror is recorded with when the operating system refuses the target with
  \<open>flt\<close>: the error of its fetch, or else the error of the write.
\<close>

definition fault_exn :: "fault \<Rightarrow> exn" where
  "fault_exn flt = (case flt of Refused e \<Rightarrow> e | WriteFault e part \<Rightarrow> e)"

definition refusals :: "network \<Rightarrow> fault \<Rightarrow> string list \<Rightarrow> (string \<times> exn) list" where
  "refusals net flt us =
     map (\<lambda>u. (u, case read_response (net u referer) of Inl e \<Rightarrow> e | Inr page \<Rightarrow> fault_exn flt)) us"

text \<open>A file system is well formed when whatever exists lies in a directory.\<close>

definition wf_fs :: "(path \<Rightarrow> node option) \<Rightarrow> bool" where
  "wf_fs f = (\<forall>p. f p \<noteq> None \<longrightarrow> is_dir f (parent p))"

section \<open>Chapter pages and their targets\<close>

text \<open>
  \<open>Path.__truediv__\<close> with a string, for POSIX paths: the string is split at \<open>/\<close>, empty
  parts and \<open>.\<close> are dropped, and a string that starts with \<open>/\<close> is absolute and
  replaces the path on the left. (A leading \<open>//\<close> is read as \<open>/\<close>, where Linux resolves
  it.)
\<close>

fun split_on :: "char \<Rightarrow> string \<Rightarrow> string list" where
  "split_on c [] = [[]]"
| "split_on c (x # xs) =
     (if x = c then [] # split_on c xs
      else (case split_on c xs of [] \<Rightarrow> [[x]] | y # ys \<Rightarrow> (x # y) # ys))"

definition parts_of :: "string \<Rightarrow> path" where
  "parts_of s =
     (if startswith s ''/'' then [''/''] else []) @
     filter (\<lambda>t. t \<noteq> [] \<and> t \<noteq> ''.'') (split_on CHR ''/'' s)"

definition truediv :: "path \<Rightarrow> string \<Rightarrow> path" where
  "truediv p s = (if startswith s ''/'' then parts_of s else p @ parts_of s)"

text \<open>
  What \<open>get_chapter_pages\<close> reads from the chapter page: \<open>window.__pg\<close> (a list of
  dicts) and of \<open>window.__info\<close> the values of \<open>info['servers']\<close> and the dict
  \<open>info['img']\<close>. The parameter \<open>loads_pages\<close> stands for the library calls
  (\<open>re.findall\<close>, \<open>json.loads\<close>, \<open>dict.values\<close>).
\<close>

record page_data =
  pg :: "jdict list"
  servers :: "jval list"
  img :: jdict

definition as_str :: "jval \<Rightarrow> exn + string" where
  "as_str v = (case v of JStr s \<Rightarrow> Inr s | _ \<Rightarrow> Inl TypeError)"

text \<open>\<open>s + '/' + info['img']['url'] + p['u']\<close>, evaluated from the left.\<close>

definition page_url :: "page_data \<Rightarrow> jdict \<Rightarrow> jval \<Rightarrow> exn + string" where
  "page_url info p s =
     (case as_str s of Inl e \<Rightarrow> Inl e | Inr a \<Rightarrow>
      case getitem (img info) ''url'' of Inl e \<Rightarrow> Inl e | Inr iu \<Rightarrow>
      case as_str iu of Inl e \<Rightarrow> Inl e | Inr b \<Rightarrow>
      case getitem p ''u'' of Inl e \<Rightarrow> Inl e | Inr pu \<Rightarrow>
      case as_str pu of Inl e \<Rightarrow> Inl e | Inr c \<Rightarrow> Inr (a @ ''/'' @ b @ c))"

definition get_chapter_pages ::
  "network \<Rightarrow> (string \<Rightarrow> exn + page_data) \<Rightarrow> string \<Rightarrow> world \<Rightarrow> (exn + string list list) \<times> world" where
  "get_chapter_pages net loads_pages chapter_url w =
     (case requests_get net chapter_url w of
        (Inl e, w') \<Rightarrow> (Inl e, w')
      | (Inr html, w') \<Rightarrow>
          (case loads_pages html of
             Inl e \<Rightarrow> (Inl e, w')
           | Inr info \<Rightarrow>
               (comprehension (\<lambda>p. comprehension (page_url info p) (servers info)) (pg info), w')))"

text \<open>
  The items of a chapter, as \<open>download_chapter\<close> builds them:
  \<open>(path / chapter['number'] / f"{i}.jpg", page_urls)\<close> over \<open>enumerate(pages)\<close>.
\<close>

definition chapter_items ::
  "path \<Rightarrow> chapter_entry \<Rightarrow> string list list \<Rightarrow> exn + (path \<times> string list) list" where
  "chapter_items p c pages =
     comprehension
       (\<lambda>(i, page_urls).
          case number c of
            JStr k \<Rightarrow> Inr (truediv (truediv p k) (str_nat i @ ''.jpg''), page_urls)
          | _ \<Rightarrow> Inl TypeError)
       (enumerate 0 pages)"

text \<open>A plain name: one path component, neither empty nor \<open>.\<close>.\<close>

definition plain :: "string \<Rightarrow> bool" where
  "plain s = (s \<noteq> [] \<and> s \<noteq> ''.'' \<and> CHR ''/'' \<notin> set s)"

section \<open>The batch\<close>

text \<open>
  \<open>_download\<close> makes one task per item, in the order of the items, and awaits
  \<open>asyncio.gather\<close> of them. A task runs without interruption up to its next
  \<open>await\<close>, and the only awaits of \<open>download_\<close> are those of the request in
  \<open>download__\<close>. So a task is either waiting for the reply to the request it has sent
  to one mirror (it keeps the target, that mirror, the mirrors still to try and the
  exceptions collected so far), or it is done with the result of \<open>download_\<close>.
\<close>

datatype task = Waiting path string "string list" "(string \<times> exn) list" | Done "exn + unit"

text \<open>
  The head of the \<open>for\<close> loop: with no mirror left the task raises; otherwise it sends
  the request to the next mirror and waits.
\<close>

definition next_mirror ::
  "path \<Rightarrow> string list \<Rightarrow> (string \<times> exn) list \<Rightarrow> world \<Rightarrow> task \<times> world" where
  "next_mirror to_path urls exceptions w =
     (case urls of
        [] \<Rightarrow> (Done (Inl (FailedToDownload to_path exceptions)), w)
      | u # us \<Rightarrow> (Waiting to_path u us exceptions, send u referer w))"

text \<open>The first step of a task: \<open>download_\<close> up to its first \<open>await\<close>.\<close>

definition start :: "path \<times> string list \<Rightarrow> world \<Rightarrow> task \<times> world" where
  "start item w =
     (case item of (to_path, urls) \<Rightarrow>
        if exists (fs w) to_path then (Done (Inr ()), w)
        else
          (case mkdir (faults w) (fs w) (parent to_path) True True of
             Inl e \<Rightarrow> (Done (Inl e), w)
           | Inr f' \<Rightarrow> next_mirror to_path urls [] (w\<lparr>fs := f'\<rparr>)))"

text \<open>
  A later step of a task: the reply has come. The rest of the \<open>try\<close> runs (the status
  and the body are checked, the target is written) and the task returns, or the
  \<open>except\<close> clause logs and records the exception and the loop goes on.
\<close>

definition resume :: "network \<Rightarrow> task \<Rightarrow> world \<Rightarrow> task \<times> world" where
  "resume net t w =
     (case t of
        Done r \<Rightarrow> (Done r, w)
      | Waiting to_path u us exceptions \<Rightarrow>
          (case read_response (net u referer) of
             Inl e \<Rightarrow> next_mirror to_path us (exceptions @ [(u, e)]) (log_exception e w)
           | Inr page \<Rightarrow>
               (case open_write to_path page w of
                  (Inr r, w') \<Rightarrow> (Done (Inr ()), w')
                | (Inl e, w') \<Rightarrow>
                    next_mirror to_path us (exceptions @ [(u, e)]) (log_exception e w'))))"

text \<open>The tasks take their first steps in the order in which they were created.\<close>

fun start_all :: "(path \<times> string list) list \<Rightarrow> world \<Rightarrow> task list \<times> world" where
  "start_all [] w = ([], w)"
| "start_all (item # items) w =
     (case start item w of
        (t, w') \<Rightarrow> (case start_all items w' of (ts, w'') \<Rightarrow> (t # ts, w'')))"

text \<open>
  What \<open>await asyncio.gather(...)\<close> comes to (without \<open>return_exceptions\<close>): the
  exception of the first task that raised is raised at once, whatever the other tasks are
  doing; when every task has returned, it returns; otherwise it is pending. At most one
  task changes in a step, and in the first steps the tasks finish in list order, so the
  first task in time that raised is the first in the list.
\<close>

datatype outcome = Returned | Raised exn | Pending

fun is_waiting :: "task \<Rightarrow> bool" where
  "is_waiting (Waiting to_path u us exceptions) = True"
| "is_waiting (Done r) = False"

fun raised :: "task list \<Rightarrow> exn option" where
  "raised [] = None"
| "raised (Done (Inl e) # ts) = Some e"
| "raised (t # ts) = raised ts"

definition waiting :: "task list \<Rightarrow> nat list" where
  "waiting ts = filter (\<lambda>i. is_waiting (ts ! i)) [0..<length ts]"

definition verdict :: "task list \<Rightarrow> outcome" where
  "verdict ts =
     (case raised ts of
        Some e \<Rightarrow> Raised e
      | None \<Rightarrow> if waiting ts = [] then Returned else Pending)"

text \<open>
  Which reply comes next is not in the program's hands: a schedule lists the choices, the
  number \<open>k\<close> choosing among the waiting tasks. \<open>gather\<close> lets the chosen task take
  its step until the verdict is reached; a schedule that ends before leaves it pending.
  The batch ends when \<open>gather\<close> raises: the tasks that still wait are abandoned (the
  exception leaves \<open>download\<close> and the event loop cancels them), and what they might
  do before that is not part of the result.
\<close>

definition pick :: "nat \<Rightarrow> task list \<Rightarrow> nat" where
  "pick k ts = waiting ts ! (k mod length (waiting ts))"

fun gather :: "network \<Rightarrow> nat list \<Rightarrow> task list \<Rightarrow> world \<Rightarrow> outcome \<times> task list \<times> world" where
  "gather net [] ts w = (verdict ts, ts, w)"
| "gather net (k # sched) ts w =
     (if verdict ts = Pending
      then (case resume net (ts ! pick k ts) w of
              (t', w') \<Rightarrow> gather net sched (ts[pick k ts := t']) w')
      else (verdict ts, ts, w))"

text \<open>
  \<open>_download\<close>. Its parameter \<open>max_requests\<close> is not used by its body, and the session
  only carries the requests, so neither is a parameter here.
\<close>

definition batch_download ::
  "network \<Rightarrow> nat list \<Rightarrow> (path \<times> string list) list \<Rightarrow> world \<Rightarrow> outcome \<times> task list \<times> world" where
  "batch_download net sched items w =
     (case start_all items w of (ts, w') \<Rightarrow> gather net sched ts w')"






section \<open>The constructor's URL check\<close>

text \<open>
  Claim C10. For every constructor argument that does not start with the literal prefix
  \<open>https://mangalib.me/\<close>, constructing the downloader raises an exception, and the
  world is left as it was: no request has been sent, nothing has been written or logged.
\<close>

theorem init_rejects_foreign_url:
  "\<not> startswith manga_url ''https://mangalib.me/'' \<Longrightarrow>
   init net loads_data manga_url w = (Inl (Exception ''URL is not from mangalib.me''), w)"
  by (simp add: init_def base_url_def)

theorem init_rejects_foreign_url_witness:
  "\<not> startswith ''http://example.org/manga'' ''https://mangalib.me/'' \<and>
   init (\<lambda>u hs. Response 200 ''x'') (\<lambda>h. Inl IndexError) ''http://example.org/manga''
     \<lparr>fs = Map.empty, requests = [], logged = [], faults = Map.empty\<rparr> =
   (Inl (Exception ''URL is not from mangalib.me''),
    \<lparr>fs = Map.empty, requests = [], logged = [], faults = Map.empty\<rparr>)"
proof -
  have h: "\<not> startswith ''http://example.org/manga'' ''https://mangalib.me/''"
    by (simp add: startswith_def)
  show ?thesis
    using h init_rejects_foreign_url [OF h] by simp
qed

section \<open>The single-source fetch\<close>

text \<open>
  Claim C6, as the code has it. A single fetch raises the transport's error on a status
  of 400 and above (the statuses for which \<open>raise_for_status\<close> raises) and on a
  transport failure; with a status below 400, whether it is a success status or not, it
  raises \<open>Exception('Empty response')\<close> when the body has length zero and returns the
  body otherwise. It returns a body only when it is not empty, and it sends exactly one
  request: it never retries.
\<close>

theorem download_url_contract:
  "(net u referer = Response st resp \<and> 400 \<le> st \<longrightarrow>
      fst (download_url net u w) = Inl (ClientResponseError st)) \<and>
   (net u referer = Response st [] \<and> st < 400 \<longrightarrow>
      fst (download_url net u w) = Inl (Exception ''Empty response'')) \<and>
   (net u referer = Unreachable \<longrightarrow> fst (download_url net u w) = Inl ClientConnectionError) \<and>
   (net u referer = Response st resp \<and> st < 400 \<and> resp \<noteq> [] \<longrightarrow>
      fst (download_url net u w) = Inr resp) \<and>
   (fst (download_url net u w) = Inr page \<longrightarrow>
      page \<noteq> [] \<and> (\<exists>st<400. net u referer = Response st page)) \<and>
   requests (snd (download_url net u w)) = requests w @ [\<lparr>req_url = u, req_headers = referer\<rparr>] \<and>
   fs (snd (download_url net u w)) = fs w"
  by (auto simp: download_url_def read_response_def send_def split: reply.splits if_splits)

theorem download_url_contract_witness:
  "fst (download_url (\<lambda>u hs. Response 404 ''gone'') ''http://m1/0.jpg''
        \<lparr>fs = Map.empty, requests = [], logged = [], faults = Map.empty\<rparr>) = Inl (ClientResponseError 404) \<and>
   fst (download_url (\<lambda>u hs. Response 200 []) ''http://m1/0.jpg''
        \<lparr>fs = Map.empty, requests = [], logged = [], faults = Map.empty\<rparr>) = Inl (Exception ''Empty response'') \<and>
   fst (download_url (\<lambda>u hs. Unreachable) ''http://m1/0.jpg''
        \<lparr>fs = Map.empty, requests = [], logged = [], faults = Map.empty\<rparr>) = Inl ClientConnectionError \<and>
   fst (download_url (\<lambda>u hs. Response 200 ''img'') ''http://m1/0.jpg''
        \<lparr>fs = Map.empty, requests = [], logged = [], faults = Map.empty\<rparr>) = Inr ''img'' \<and>
   (\<exists>st<400. (\<lambda>u hs. Response 200 ''img'') ''http://m1/0.jpg'' referer = Response st ''img'')"
  using
    download_url_contract [of "\<lambda>u hs. Response 404 ''gone''" "''http://m1/0.jpg''" 404 "''gone''"
      "\<lparr>fs = Map.empty, requests = [], logged = [], faults = Map.empty\<rparr>" "''img''"]
    download_url_contract [of "\<lambda>u hs. Response 200 []" "''http://m1/0.jpg''" 200 "[]"
      "\<lparr>fs = Map.empty, requests = [], logged = [], faults = Map.empty\<rparr>" "''img''"]
    download_url_contract [of "\<lambda>u hs. Unreachable" "''http://m1/0.jpg''" 200 "[]"
      "\<lparr>fs = Map.empty, requests = [], logged = [], faults = Map.empty\<rparr>" "''img''"]
    download_url_contract [of "\<lambda>u hs. Response 200 ''img''" "''http://m1/0.jpg''" 200 "''img''"
      "\<lparr>fs = Map.empty, requests = [], logged = [], faults = Map.empty\<rparr>" "''img''"]
  by (simp add: download_url_def read_response_def)

text \<open>
  Claim C6 as stated fails: 300 is not a success status, and the body that comes with it
  is returned as content.
\<close>

theorem download_url_returns_body_of_300:
  "fst (download_url (\<lambda>u hs. Response 300 ''x'') ''http://m1/0.jpg''
        \<lparr>fs = Map.empty, requests = [], logged = [], faults = Map.empty\<rparr>) = Inr ''x''"
  by (simp add: download_url_def read_response_def)

section \<open>Creating directories\<close>

lemma mkdir_False:
  "mkdir flt f p False ok =
     (case os_mkdir flt f p of
        Inr f' \<Rightarrow> Inr f'
      | Inl e \<Rightarrow> if e = FileNotFoundError then Inl e
                 else if \<not> ok \<or> \<not> is_dir f p then Inl e else Inr f)"
  by (subst mkdir.simps) (simp split: sum.splits)

lemma mkdir_True:
  "mkdir flt f p True True =
     (case os_mkdir flt f p of
        Inr f' \<Rightarrow> Inr f'
      | Inl e \<Rightarrow>
          if e = FileNotFoundError then
            (if parent p = p then Inl e
             else (case mkdir flt f (parent p) True True of
                     Inl e' \<Rightarrow> Inl e'
                   | Inr f1 \<Rightarrow> mkdir flt f1 p False True))
          else if \<not> is_dir f p then Inl e else Inr f)"
  by (subst mkdir.simps) (simp split: sum.splits)

lemma os_mkdir_Inr:
  "os_mkdir flt f p = Inr f' \<Longrightarrow> f' = f(p \<mapsto> Dir) \<and> lookup f p = None \<and> is_dir f (parent p)"
  by (auto simp: os_mkdir_def is_dir_def split: if_splits option.splits node.splits fault.splits)

lemma lookup_None: "lookup f p = None \<Longrightarrow> f p = None \<and> p \<noteq> [] \<and> p \<noteq> [''/'']"
  by (auto simp: lookup_def split: if_splits)


lemma os_mkdir_frame:
  assumes "os_mkdir flt f p = Inr f'"
  shows "is_dir f' p \<and> (\<forall>q. f' q = f q \<or> (f q = None \<and> f' q = Some Dir \<and> q = p))"
proof -
  note r = os_mkdir_Inr[OF assms]
  from r have *: "f' = f(p \<mapsto> Dir)" and l: "lookup f p = None"
    by simp_all
  from lookup_None[OF l] have "f p = None" "p \<noteq> []" "p \<noteq> [''/'']"
    by simp_all
  with * show ?thesis
    by (simp add: is_dir_def lookup_def)
qed

lemma mkdir_False_frame:
  assumes "mkdir flt f p False True = Inr f'"
  shows "is_dir f' p \<and> (\<forall>q. f' q = f q \<or> (f q = None \<and> f' q = Some Dir \<and> q = p))"
proof (cases "os_mkdir flt f p")
  case (Inr g)
  with assms have "f' = g" by (simp add: mkdir_False)
  with Inr have "os_mkdir flt f p = Inr f'" by simp
  then show ?thesis by (rule os_mkdir_frame)
next
  case (Inl e)
  with assms have "is_dir f p \<and> f' = f"
    by (simp add: mkdir_False split: if_splits)
  then show ?thesis by simp
qed

lemma parent_prefix: "prefix (parent p) p"
  by (simp add: parent_def prefixeq_butlast)

lemma mkdir_frame:
  "mkdir flt f p True True = Inr f' \<Longrightarrow>
   is_dir f' p \<and> (\<forall>q. f' q = f q \<or> (f q = None \<and> f' q = Some Dir \<and> prefix q p))"
proof (induction "length p" arbitrary: p f f' rule: less_induct)
  case less
  note unf = mkdir_True[of flt f p]
  show ?case
  proof (cases "os_mkdir flt f p")
    case (Inr g)
    with less.prems have "f' = g" by (simp add: unf)
    with Inr have "os_mkdir flt f p = Inr f'" by simp
    from os_mkdir_frame[OF this] show ?thesis by auto
  next
    case (Inl e)
    show ?thesis
    proof (cases "e = FileNotFoundError")
      case False
      with Inl less.prems have "is_dir f p \<and> f' = f"
        by (simp add: unf split: if_splits)
      then show ?thesis by simp
    next
      case True
      with Inl less.prems have np: "parent p \<noteq> p"
        by (simp add: unf split: if_splits)
      with True Inl less.prems obtain f1 where
        f1: "mkdir flt f (parent p) True True = Inr f1" and f': "mkdir flt f1 p False True = Inr f'"
        by (simp add: unf split: if_splits sum.splits)
      from np have pp: "p \<noteq> []" "parent p = butlast p"
        by (auto simp: parent_def split: if_splits)
      then have "length (parent p) < length p" by simp
      note ih = less.hyps[OF this f1]
      note fr = mkdir_False_frame[OF f']
      from ih have a: "f1 q = f q \<or> (f q = None \<and> f1 q = Some Dir \<and> prefix q (parent p))" for q
        by simp
      from fr have b: "f' q = f1 q \<or> (f1 q = None \<and> f' q = Some Dir \<and> q = p)" for q
        by simp
      show ?thesis
      proof (intro conjI allI)
        from fr show "is_dir f' p" by simp
      next
        fix q
        have pq: "prefix q (parent p) \<Longrightarrow> prefix q p"
          using parent_prefix[of p] by (rule prefix_order.trans[rotated])
        from a[of q] b[of q]
        consider "f' q = f1 q" "f1 q = f q"
          | "f' q = f1 q" "f q = None" "f1 q = Some Dir" "prefix q (parent p)"
          | "f1 q = None" "f' q = Some Dir" "q = p"
          by argo
        then show "f' q = f q \<or> (f q = None \<and> f' q = Some Dir \<and> prefix q p)"
        proof cases
          case 1
          then show ?thesis by simp
        next
          case 2
          then show ?thesis using pq by simp
        next
          case 3
          with a[of q] show ?thesis by auto
        qed
      qed
    qed
  qed
qed

section \<open>The mirror loop\<close>

lemma attempt_fail:
  "read_response (net u referer) = Inl e \<Longrightarrow> attempt net to_path u w = (Inl e, send u referer w)"
  by (simp add: attempt_def download_url_def)

lemma attempt_fetched:
  "read_response (net u referer) = Inr page \<Longrightarrow>
   attempt net to_path u w = open_write to_path page (send u referer w)"
  by (simp add: attempt_def download_url_def)

lemma mirrors_all_fail:
  "\<forall>u\<in>set us. isl (read_response (net u referer)) \<Longrightarrow>
   mirrors net to_path us acc w =
     (Inl (FailedToDownload to_path (acc @ failures net us)),
      w\<lparr>requests := requests w @ sent us,
        logged := logged w @ map (LogException \<circ> snd) (failures net us)\<rparr>)"
proof (induction us arbitrary: acc w)
  case Nil
  then show ?case by (simp add: sent_def failures_def)
next
  case (Cons u us)
  then obtain e where e: "read_response (net u referer) = Inl e"
    by (auto simp: isl_def)
  from Cons.prems have rest: "\<forall>u\<in>set us. isl (read_response (net u referer))"
    by simp
  show ?case
    by (simp add: attempt_fail[of net u e, OF e] Cons.IH[OF rest] e sent_def failures_def
        send_def log_exception_def)
qed


lemma open_write_ok:
  "writable (fs w) p \<Longrightarrow> faults w p = None \<Longrightarrow>
   open_write p page w = (Inr (), w\<lparr>fs := (fs w)(p \<mapsto> File page)\<rparr>)"
  by (auto simp: writable_def open_write_def write_file_def is_dir_def
      split: option.splits node.splits)

lemma not_prefix_parent:
  assumes "p \<noteq> []" "p \<noteq> [''/'']"
  shows "\<not> prefix p (parent p)"
proof
  assume "prefix p (parent p)"
  then have "length p \<le> length (parent p)" by (rule prefix_length_le)
  moreover from assms have "length (parent p) < length p" by (simp add: parent_def)
  ultimately show False by linarith
qed

lemma mkdir_writable:
  assumes "\<not> exists f p" and "mkdir flt f (parent p) True True = Inr f'"
  shows "writable f' p"
proof -
  from assms(1) have n: "lookup f p = None" by (simp add: exists_def)
  note l = lookup_None[OF n]
  note fr = mkdir_frame[OF assms(2)]
  from fr have d: "is_dir f' (parent p)" by simp
  from fr have "f' p = f p \<or> (f p = None \<and> f' p = Some Dir \<and> prefix p (parent p))" by simp
  with l not_prefix_parent[of p] have "f' p = None" by auto
  with l have "lookup f' p = None" by (simp add: lookup_def)
  with d show ?thesis by (simp add: writable_def)
qed

lemma open_write_other: "requests (snd (open_write p page w)) = requests w \<and>
  logged (snd (open_write p page w)) = logged w"
  by (simp add: open_write_def write_file_def split: option.splits node.splits fault.splits)

lemma mirrors_first_success:
  "\<forall>u\<in>set pre. isl (read_response (net u referer)) \<Longrightarrow>
   read_response (net m referer) = Inr page \<Longrightarrow> writable (fs w) to_path \<Longrightarrow>
   faults w to_path = None \<Longrightarrow>
   fst (mirrors net to_path (pre @ m # post) acc w) = Inr () \<and>
   fs (snd (mirrors net to_path (pre @ m # post) acc w)) = (fs w)(to_path \<mapsto> File page) \<and>
   requests (snd (mirrors net to_path (pre @ m # post) acc w)) = requests w @ sent (pre @ [m]) \<and>
   logged (snd (mirrors net to_path (pre @ m # post) acc w)) =
     logged w @ map (LogException \<circ> snd) (failures net pre)"
proof (induction pre arbitrary: acc w)
  case Nil
  have "writable (fs (send m referer w)) to_path" "faults (send m referer w) to_path = None"
    using Nil.prems(3,4) by (simp_all add: send_def)
  from open_write_ok[OF this, of page] Nil.prems(2) show ?case
    by (simp add: attempt_fetched[of net m page] sent_def failures_def send_def)
next
  case (Cons u us)
  then obtain e where e: "read_response (net u referer) = Inl e"
    by (auto simp: isl_def)
  from Cons.prems have rest: "\<forall>u\<in>set us. isl (read_response (net u referer))"
    by simp
  have wr: "writable (fs (log_exception e (send u referer w))) to_path"
    "faults (log_exception e (send u referer w)) to_path = None"
    using Cons.prems(3,4) by (simp_all add: send_def log_exception_def)
  from Cons.IH[OF rest Cons.prems(2) wr, of "acc @ [(u, e)]"] show ?case
    by (simp add: attempt_fail[of net u e, OF e] e
        sent_def failures_def send_def log_exception_def)
qed

lemma open_write_refused:
  assumes "faults w p = Some flt" and "writable (fs w) p"
  shows "\<exists>w'. open_write p page w = (Inl (fault_exn flt), w') \<and> faults w' = faults w \<and>
           requests w' = requests w \<and> logged w' = logged w \<and> writable (fs w') p"
proof (cases flt)
  case (Refused e)
  with assms show ?thesis
    by (auto simp: open_write_def write_file_def writable_def is_dir_def fault_exn_def
        split: option.splits node.splits)
next
  case (WriteFault e part)
  from assms(2) have "p \<noteq> []" "p \<noteq> [''/'']"
    by (auto simp: writable_def lookup_def)
  then have "writable ((fs w)(p \<mapsto> File part)) p"
    by (simp add: writable_def lookup_def)
  with WriteFault assms show ?thesis
    by (auto simp: open_write_def write_file_def writable_def is_dir_def fault_exn_def
        split: option.splits node.splits)
qed

lemma mirrors_refused:
  "faults w to_path = Some flt \<Longrightarrow> writable (fs w) to_path \<Longrightarrow>
   fst (mirrors net to_path us acc w) =
     Inl (FailedToDownload to_path (acc @ refusals net flt us)) \<and>
   requests (snd (mirrors net to_path us acc w)) = requests w @ sent us"
proof (induction us arbitrary: acc w)
  case Nil
  then show ?case by (simp add: sent_def refusals_def)
next
  case (Cons u us)
  show ?case
  proof (cases "read_response (net u referer)")
    case (Inl e)
    have wr: "faults (log_exception e (send u referer w)) to_path = Some flt"
      "writable (fs (log_exception e (send u referer w))) to_path"
      using Cons.prems by (simp_all add: send_def log_exception_def)
    from Cons.IH[OF wr, of "acc @ [(u, e)]"] show ?thesis
      by (simp add: attempt_fail[of net u e, OF Inl] Inl sent_def refusals_def send_def
          log_exception_def)
  next
    case (Inr page)
    have pre: "faults (send u referer w) to_path = Some flt"
      "writable (fs (send u referer w)) to_path"
      using Cons.prems by (simp_all add: send_def)
    from open_write_refused[OF pre, of page] obtain w1 where
      ow: "open_write to_path page (send u referer w) = (Inl (fault_exn flt), w1)"
      and k: "faults w1 = faults (send u referer w)" "requests w1 = requests (send u referer w)"
        "writable (fs w1) to_path"
      by blast
    have wr: "faults (log_exception (fault_exn flt) w1) to_path = Some flt"
      "writable (fs (log_exception (fault_exn flt) w1)) to_path"
      using k pre by (simp_all add: log_exception_def)
    have att: "attempt net to_path u w = (Inl (fault_exn flt), w1)"
      using attempt_fetched[of net u page to_path w, OF Inr] ow by simp
    have step: "mirrors net to_path (u # us) acc w =
        mirrors net to_path us (acc @ [(u, fault_exn flt)]) (log_exception (fault_exn flt) w1)"
      by (simp add: att)
    have rq: "requests (log_exception (fault_exn flt) w1) =
        requests w @ [\<lparr>req_url = u, req_headers = referer\<rparr>]"
      using k(2) by (simp add: log_exception_def send_def)
    from Cons.IH[OF wr, of "acc @ [(u, fault_exn flt)]"] show ?thesis
      unfolding step rq by (simp add: Inr sent_def refusals_def)
  qed
qed

lemma download_item_new:
  "\<not> exists (fs w) to_path \<Longrightarrow> mkdir (faults w) (fs w) (parent to_path) True True = Inr f' \<Longrightarrow>
   download_item net to_path urls w = mirrors net to_path urls [] (w\<lparr>fs := f'\<rparr>)"
  by (simp add: download_item_def)

text \<open>
  Claim C4. When every mirror of an item fails, the mirror loop raises the exception that
  carries the target and exactly one (url, error) pair for each mirror, in the order of
  the list; every mirror has been requested once, in that order, and nothing has been
  written. So does the item's pipeline, when the target does not exist and its parent
  directory can be made.
\<close>

theorem all_mirrors_fail:
  assumes "\<forall>u\<in>set urls. isl (read_response (net u referer))"
  shows "fst (mirrors net to_path urls [] w) =
           Inl (FailedToDownload to_path
                  (map (\<lambda>u. (u, projl (read_response (net u referer)))) urls)) \<and>
         requests (snd (mirrors net to_path urls [] w)) =
           requests w @ map (\<lambda>u. \<lparr>req_url = u, req_headers = referer\<rparr>) urls \<and>
         fs (snd (mirrors net to_path urls [] w)) = fs w \<and>
         (\<not> exists (fs w) to_path \<and> \<not> isl (mkdir (faults w) (fs w) (parent to_path) True True) \<longrightarrow>
            fst (download_item net to_path urls w) =
              Inl (FailedToDownload to_path
                     (map (\<lambda>u. (u, projl (read_response (net u referer)))) urls)))"
proof -
  have m: "mirrors net to_path urls [] v =
     (Inl (FailedToDownload to_path ([] @ failures net urls)),
      v\<lparr>requests := requests v @ sent urls,
        logged := logged v @ map (LogException \<circ> snd) (failures net urls)\<rparr>)" for v
    using assms by (rule mirrors_all_fail[where us=urls and net=net])
  have a: "fst (mirrors net to_path urls [] v) =
           Inl (FailedToDownload to_path
                  (map (\<lambda>u. (u, projl (read_response (net u referer)))) urls))" for v
    by (simp add: m failures_def)
  have b: "requests (snd (mirrors net to_path urls [] w)) =
           requests w @ map (\<lambda>u. \<lparr>req_url = u, req_headers = referer\<rparr>) urls"
    by (simp add: m sent_def)
  have c: "fs (snd (mirrors net to_path urls [] w)) = fs w"
    by (simp add: m)
  have d: "fst (download_item net to_path urls w) =
              Inl (FailedToDownload to_path
                     (map (\<lambda>u. (u, projl (read_response (net u referer)))) urls))"
    if "\<not> exists (fs w) to_path" "\<not> isl (mkdir (faults w) (fs w) (parent to_path) True True)"
  proof -
    from that(2) obtain f' where "mkdir (faults w) (fs w) (parent to_path) True True = Inr f'"
      by (cases "mkdir (faults w) (fs w) (parent to_path) True True") auto
    from download_item_new[OF that(1) this] show ?thesis by (simp add: a)
  qed
  from a b c d show ?thesis by blast
qed

theorem all_mirrors_fail_witness:
  "fst (download_item (\<lambda>u hs. if u = ''http://m1/0.jpg'' then Response 404 ''no'' else Unreachable)
          [''out'', ''0.jpg''] [''http://m1/0.jpg'', ''http://m2/0.jpg'']
          \<lparr>fs = Map.empty, requests = [], logged = [], faults = Map.empty\<rparr>) =
     Inl (FailedToDownload [''out'', ''0.jpg'']
            [(''http://m1/0.jpg'', ClientResponseError 404),
             (''http://m2/0.jpg'', ClientConnectionError)])"
  using all_mirrors_fail
    [of "[''http://m1/0.jpg'', ''http://m2/0.jpg'']"
        "\<lambda>u hs. if u = ''http://m1/0.jpg'' then Response 404 ''no'' else Unreachable"
        "[''out'', ''0.jpg'']" "\<lparr>fs = Map.empty, requests = [], logged = [], faults = Map.empty\<rparr>"]
  by (simp add: read_response_def exists_def lookup_def parent_def mkdir.simps os_mkdir_def)

section \<open>Mirror fallback\<close>

text \<open>
  Claim C2, as the code has it. For an item whose target does not exist and whose parent
  directory can be made, with mirrors \<open>pre @ m # post\<close> where the fetch of every mirror
  of \<open>pre\<close> fails and \<open>m\<close> answers with a payload. If the operating system does not
  refuse the target, the mirrors are requested in list order up to \<open>m\<close> and no further,
  the payload is written to the target, and the call returns \<open>None\<close>: neither the
  payload nor the index of the mirror is returned. If it refuses the target, the write
  fails inside the \<open>try\<close>, so \<open>m\<close> counts as failed like the others: every mirror of the
  list is requested, in order, and the call raises with one pair for each of them.
\<close>

theorem first_working_mirror:
  assumes "\<forall>u\<in>set pre. isl (read_response (net u referer))"
    and "read_response (net m referer) = Inr page"
    and "\<not> exists (fs w) to_path"
    and "mkdir (faults w) (fs w) (parent to_path) True True = Inr f'"
  shows "(faults w to_path = None \<longrightarrow>
           fst (download_item net to_path (pre @ m # post) w) = Inr () \<and>
           requests (snd (download_item net to_path (pre @ m # post) w)) =
             requests w @ map (\<lambda>u. \<lparr>req_url = u, req_headers = referer\<rparr>) (pre @ [m]) \<and>
           fs (snd (download_item net to_path (pre @ m # post) w)) = f'(to_path \<mapsto> File page)) \<and>
         (\<forall>flt. faults w to_path = Some flt \<longrightarrow>
           fst (download_item net to_path (pre @ m # post) w) =
             Inl (FailedToDownload to_path (refusals net flt (pre @ m # post))) \<and>
           requests (snd (download_item net to_path (pre @ m # post) w)) =
             requests w @ map (\<lambda>u. \<lparr>req_url = u, req_headers = referer\<rparr>) (pre @ m # post))"
proof -
  have wr: "writable (fs (w\<lparr>fs := f'\<rparr>)) to_path"
    using mkdir_writable[OF assms(3,4)] by simp
  have di: "download_item net to_path (pre @ m # post) w =
        mirrors net to_path (pre @ m # post) [] (w\<lparr>fs := f'\<rparr>)"
    using assms(3,4) by (rule download_item_new)
  have a: "fst (download_item net to_path (pre @ m # post) w) = Inr () \<and>
           requests (snd (download_item net to_path (pre @ m # post) w)) =
             requests w @ map (\<lambda>u. \<lparr>req_url = u, req_headers = referer\<rparr>) (pre @ [m]) \<and>
           fs (snd (download_item net to_path (pre @ m # post) w)) = f'(to_path \<mapsto> File page)"
    if n: "faults w to_path = None"
  proof -
    from n have n': "faults (w\<lparr>fs := f'\<rparr>) to_path = None" by simp
    from mirrors_first_success[where pre=pre and net=net and m=m and page=page
      and w="w\<lparr>fs := f'\<rparr>" and to_path=to_path and post=post and acc="[]", OF assms(1,2) wr n']
      di
    show ?thesis by (simp add: sent_def)
  qed
  have b: "fst (download_item net to_path (pre @ m # post) w) =
             Inl (FailedToDownload to_path (refusals net flt (pre @ m # post))) \<and>
           requests (snd (download_item net to_path (pre @ m # post) w)) =
             requests w @ map (\<lambda>u. \<lparr>req_url = u, req_headers = referer\<rparr>) (pre @ m # post)"
    if f: "faults w to_path = Some flt" for flt
  proof -
    from f have f': "faults (w\<lparr>fs := f'\<rparr>) to_path = Some flt" by simp
    from mirrors_refused[where w="w\<lparr>fs := f'\<rparr>" and to_path=to_path and flt=flt and net=net
      and us="pre @ m # post" and acc="[]", OF f' wr] di
    show ?thesis by (simp add: sent_def)
  qed
  from a b show ?thesis by blast
qed

theorem first_working_mirror_witness:
  "fst (download_item (\<lambda>u hs. if u = ''http://m3/0.jpg'' then Response 200 ''B'' else Response 404 [])
          [''out'', ''0.jpg''] [''http://m1/0.jpg'', ''http://m2/0.jpg'', ''http://m3/0.jpg'', ''http://m4/0.jpg'']
          \<lparr>fs = Map.empty, requests = [], logged = [], faults = Map.empty\<rparr>) = Inr () \<and>
   map req_url (requests (snd (download_item
          (\<lambda>u hs. if u = ''http://m3/0.jpg'' then Response 200 ''B'' else Response 404 [])
          [''out'', ''0.jpg''] [''http://m1/0.jpg'', ''http://m2/0.jpg'', ''http://m3/0.jpg'', ''http://m4/0.jpg'']
          \<lparr>fs = Map.empty, requests = [], logged = [], faults = Map.empty\<rparr>))) =
     [''http://m1/0.jpg'', ''http://m2/0.jpg'', ''http://m3/0.jpg''] \<and>
   fst (download_item (\<lambda>u hs. if u = ''http://m3/0.jpg'' then Response 200 ''B'' else Response 404 [])
          [''out'', ''0.jpg''] [''http://m1/0.jpg'', ''http://m2/0.jpg'', ''http://m3/0.jpg'', ''http://m4/0.jpg'']
          \<lparr>fs = Map.empty, requests = [], logged = [],
           faults = [[''out'', ''0.jpg''] \<mapsto> Refused (OSError ''ENAMETOOLONG'')]\<rparr>) =
     Inl (FailedToDownload [''out'', ''0.jpg'']
            [(''http://m1/0.jpg'', ClientResponseError 404),
             (''http://m2/0.jpg'', ClientResponseError 404),
             (''http://m3/0.jpg'', OSError ''ENAMETOOLONG''),
             (''http://m4/0.jpg'', ClientResponseError 404)])"
  using first_working_mirror
    [of "[''http://m1/0.jpg'', ''http://m2/0.jpg'']"
        "\<lambda>u hs. if u = ''http://m3/0.jpg'' then Response 200 ''B'' else Response 404 []"
        "''http://m3/0.jpg''" "''B''"
        "\<lparr>fs = Map.empty, requests = [], logged = [], faults = Map.empty\<rparr>"
        "[''out'', ''0.jpg'']" "Map.empty([''out''] \<mapsto> Dir)" "[''http://m4/0.jpg'']"]
    first_working_mirror
    [of "[''http://m1/0.jpg'', ''http://m2/0.jpg'']"
        "\<lambda>u hs. if u = ''http://m3/0.jpg'' then Response 200 ''B'' else Response 404 []"
        "''http://m3/0.jpg''" "''B''"
        "\<lparr>fs = Map.empty, requests = [], logged = [],
          faults = [[''out'', ''0.jpg''] \<mapsto> Refused (OSError ''ENAMETOOLONG'')]\<rparr>"
        "[''out'', ''0.jpg'']" "Map.empty([''out''] \<mapsto> Dir)" "[''http://m4/0.jpg'']"]
  by (simp add: read_response_def exists_def lookup_def parent_def mkdir.simps os_mkdir_def
      refusals_def fault_exn_def)

text \<open>
  Claim C2 as stated fails: the value returned is the same whether the first mirror
  delivers \<open>A\<close> or the third delivers \<open>B\<close> after two failures, so it carries neither
  the payload nor the index of the mirror that succeeded.
\<close>

theorem download_item_returns_nothing:
  "fst (download_item (\<lambda>u hs. if u = ''http://m3/0.jpg'' then Response 200 ''B'' else Response 404 [])
          [''out'', ''0.jpg''] [''http://m1/0.jpg'', ''http://m2/0.jpg'', ''http://m3/0.jpg'']
          \<lparr>fs = Map.empty, requests = [], logged = [], faults = Map.empty\<rparr>) =
   fst (download_item (\<lambda>u hs. Response 200 ''A'')
          [''out'', ''0.jpg''] [''http://m1/0.jpg'', ''http://m2/0.jpg'', ''http://m3/0.jpg'']
          \<lparr>fs = Map.empty, requests = [], logged = [], faults = Map.empty\<rparr>) \<and>
   fs (snd (download_item (\<lambda>u hs. if u = ''http://m3/0.jpg'' then Response 200 ''B'' else Response 404 [])
          [''out'', ''0.jpg''] [''http://m1/0.jpg'', ''http://m2/0.jpg'', ''http://m3/0.jpg'']
          \<lparr>fs = Map.empty, requests = [], logged = [], faults = Map.empty\<rparr>)) [''out'', ''0.jpg''] = Some (File ''B'') \<and>
   fs (snd (download_item (\<lambda>u hs. Response 200 ''A'')
          [''out'', ''0.jpg''] [''http://m1/0.jpg'', ''http://m2/0.jpg'', ''http://m3/0.jpg'']
          \<lparr>fs = Map.empty, requests = [], logged = [], faults = Map.empty\<rparr>)) [''out'', ''0.jpg''] = Some (File ''A'') \<and>
   length (requests (snd (download_item (\<lambda>u hs. if u = ''http://m3/0.jpg'' then Response 200 ''B'' else Response 404 [])
          [''out'', ''0.jpg''] [''http://m1/0.jpg'', ''http://m2/0.jpg'', ''http://m3/0.jpg'']
          \<lparr>fs = Map.empty, requests = [], logged = [], faults = Map.empty\<rparr>))) = 3 \<and>
   length (requests (snd (download_item (\<lambda>u hs. Response 200 ''A'')
          [''out'', ''0.jpg''] [''http://m1/0.jpg'', ''http://m2/0.jpg'', ''http://m3/0.jpg'']
          \<lparr>fs = Map.empty, requests = [], logged = [], faults = Map.empty\<rparr>))) = 1"
  by (simp add: download_item_def attempt_def download_url_def read_response_def exists_def
      lookup_def parent_def mkdir.simps os_mkdir_def open_write_def write_file_def send_def
      log_exception_def)

section \<open>The skip guard\<close>

lemma is_dir_mono:
  assumes "\<And>q. g q = f q \<or> (f q = None \<and> g q = Some Dir \<and> P q)" and "is_dir f x"
  shows "is_dir g x"
  using assms(1)[of x] assms(2) by (auto simp: is_dir_def lookup_def split: if_splits)

lemma wf_fs_step:
  assumes wf: "wf_fs f"
    and fr: "\<And>q. g q = f q \<or> (f q = None \<and> g q = Some Dir \<and> q = p)"
    and d: "is_dir g (parent p)"
  shows "wf_fs g"
  unfolding wf_fs_def
proof (intro allI impI)
  fix q assume q: "g q \<noteq> None"
  show "is_dir g (parent q)"
  proof (cases "g q = f q")
    case True
    with q wf have "is_dir f (parent q)" by (simp add: wf_fs_def)
    with fr show ?thesis by (rule is_dir_mono)
  next
    case False
    with fr[of q] have "q = p" by simp
    with d show ?thesis by simp
  qed
qed

lemma os_mkdir_wf:
  assumes "wf_fs f" and "os_mkdir flt f p = Inr g"
  shows "wf_fs g"
proof -
  note fr = os_mkdir_frame[OF assms(2)]
  from os_mkdir_Inr[OF assms(2)] have "is_dir f (parent p)" by simp
  moreover from fr have a: "g q = f q \<or> (f q = None \<and> g q = Some Dir \<and> q = p)" for q by simp
  ultimately have "is_dir g (parent p)" by (rule is_dir_mono[rotated])
  with assms(1) a show ?thesis by (rule wf_fs_step)
qed

lemma mkdir_False_wf:
  assumes "wf_fs f" and "mkdir flt f p False True = Inr g"
  shows "wf_fs g"
proof (cases "os_mkdir flt f p")
  case (Inr h)
  with assms(2) have "os_mkdir flt f p = Inr g" by (simp add: mkdir_False)
  with assms(1) show ?thesis by (rule os_mkdir_wf)
next
  case (Inl e)
  with assms(2) have "g = f" by (simp add: mkdir_False split: if_splits)
  with assms(1) show ?thesis by simp
qed

lemma mkdir_wf:
  "wf_fs f \<Longrightarrow> mkdir flt f p True True = Inr g \<Longrightarrow> wf_fs g"
proof (induction "length p" arbitrary: p f g rule: less_induct)
  case less
  note unf = mkdir_True[of flt f p]
  show ?case
  proof (cases "os_mkdir flt f p")
    case (Inr h)
    with less.prems(2) have "os_mkdir flt f p = Inr g" by (simp add: unf)
    with less.prems(1) show ?thesis by (rule os_mkdir_wf)
  next
    case (Inl e)
    show ?thesis
    proof (cases "e = FileNotFoundError")
      case False
      with Inl less.prems(2) have "g = f" by (simp add: unf split: if_splits)
      with less.prems(1) show ?thesis by simp
    next
      case True
      with Inl less.prems(2) have np: "parent p \<noteq> p"
        by (simp add: unf split: if_splits)
      with True Inl less.prems(2) obtain f1 where
        f1: "mkdir flt f (parent p) True True = Inr f1" and g: "mkdir flt f1 p False True = Inr g"
        by (simp add: unf split: if_splits sum.splits)
      from np have "p \<noteq> []" "parent p = butlast p"
        by (auto simp: parent_def split: if_splits)
      then have "length (parent p) < length p" by simp
      from less.hyps[OF this less.prems(1) f1] have "wf_fs f1" .
      then show ?thesis using g by (rule mkdir_False_wf)
    qed
  qed
qed

lemma wf_prefix_dir:
  "wf_fs f \<Longrightarrow> is_dir f p \<Longrightarrow> prefix q p \<Longrightarrow> is_dir f q"
proof (induction p arbitrary: q rule: rev_induct)
  case Nil
  then show ?case by simp
next
  case (snoc x xs)
  show ?case
  proof (cases "q = xs @ [x]")
    case True
    with snoc.prems(2) show ?thesis by simp
  next
    case False
    with snoc.prems(3) have pq: "prefix q xs" by (simp add: prefix_snoc)
    show ?thesis
    proof (cases "xs @ [x] = [''/'']")
      case True
      then have "xs = []" by (cases xs) auto
      with pq show ?thesis by (simp add: is_dir_def lookup_def)
    next
      case False
      with snoc.prems(2) have "f (xs @ [x]) \<noteq> None"
        by (simp add: is_dir_def lookup_def)
      with snoc.prems(1) have "is_dir f (parent (xs @ [x]))" by (simp add: wf_fs_def)
      moreover from False have "parent (xs @ [x]) = xs" by (simp add: parent_def)
      ultimately have "is_dir f xs" by simp
      from snoc.IH[OF snoc.prems(1) this pq] show ?thesis .
    qed
  qed
qed

lemma mkdir_exist_ok: "is_dir f p \<Longrightarrow> mkdir flt f p True True = Inr f"
  by (subst mkdir_True) (simp add: os_mkdir_def is_dir_def)

lemma os_mkdir_new:
  assumes "lookup f p = None" and "lookup f (parent p) = Some Dir"
    and "\<And>e. flt p \<noteq> Some (Refused e)"
  shows "os_mkdir flt f p = Inr (f(p \<mapsto> Dir))"
proof (cases "flt p")
  case None
  with assms(1,2) show ?thesis by (simp add: os_mkdir_def)
next
  case (Some x)
  show ?thesis
  proof (cases x)
    case (Refused e)
    with Some assms(3)[of e] show ?thesis by simp
  next
    case (WriteFault e part)
    with Some assms(1,2) show ?thesis by (simp add: os_mkdir_def)
  qed
qed

lemma mkdir_succeeds:
  "(\<And>q c. prefix q p \<Longrightarrow> lookup f q \<noteq> Some (File c)) \<Longrightarrow>
   (\<And>q e. prefix q p \<Longrightarrow> flt q \<noteq> Some (Refused e)) \<Longrightarrow>
   \<exists>f'. mkdir flt f p True True = Inr f'"
proof (induction "length p" arbitrary: p f rule: less_induct)
  case less
  note unf = mkdir_True[of flt f p]
  from less.prems(1)[of p] have nf: "lookup f p \<noteq> Some (File c)" for c by simp
  from less.prems(2)[of p] have nr: "flt p \<noteq> Some (Refused e)" for e by simp
  show ?case
  proof (cases "lookup f p")
    case (Some n)
    have "is_dir f p"
    proof (cases n)
      case (File c)
      with Some nf[of c] show ?thesis by simp
    next
      case Dir
      with Some show ?thesis by (simp add: is_dir_def)
    qed
    then show ?thesis by (simp add: mkdir_exist_ok)
  next
    case None
    note l = lookup_None[OF None]
    from l have pp: "parent p = butlast p" "p \<noteq> []" by (simp_all add: parent_def)
    then have len: "length (parent p) < length p" by simp
    from less.prems(1)[of "parent p"] parent_prefix[of p]
    have npf: "lookup f (parent p) \<noteq> Some (File c)" for c by simp
    show ?thesis
    proof (cases "lookup f (parent p)")
      case (Some n)
      have "lookup f (parent p) = Some Dir"
      proof (cases n)
        case (File c)
        with Some npf[of c] show ?thesis by simp
      next
        case Dir
        with Some show ?thesis by simp
      qed
      with None nr have "os_mkdir flt f p = Inr (f(p \<mapsto> Dir))" by (intro os_mkdir_new)
      then show ?thesis by (simp add: unf)
    next
      case pn: None
      with None have om: "os_mkdir flt f p = Inl FileNotFoundError" by (simp add: os_mkdir_def)
      from len have np: "parent p \<noteq> p" by auto
      have "\<exists>f1. mkdir flt f (parent p) True True = Inr f1"
      proof (rule less.hyps[OF len])
        fix q c assume "prefix q (parent p)"
        then have "prefix q p" using parent_prefix[of p] by (rule prefix_order.trans)
        then show "lookup f q \<noteq> Some (File c)" by (rule less.prems(1))
      next
        fix q e assume "prefix q (parent p)"
        then have "prefix q p" using parent_prefix[of p] by (rule prefix_order.trans)
        then show "flt q \<noteq> Some (Refused e)" by (rule less.prems(2))
      qed
      then obtain f1 where f1: "mkdir flt f (parent p) True True = Inr f1" ..
      note fr = mkdir_frame[OF f1]
      from fr have d: "is_dir f1 (parent p)" by simp
      from fr have "f1 p = f p \<or> (f p = None \<and> f1 p = Some Dir \<and> prefix p (parent p))" by simp
      with l not_prefix_parent[of p] have "f1 p = None" by auto
      with l have "lookup f1 p = None" by (simp add: lookup_def)
      moreover from d have "lookup f1 (parent p) = Some Dir" by (simp add: is_dir_def)
      ultimately have "os_mkdir flt f1 p = Inr (f1(p \<mapsto> Dir))" using nr by (intro os_mkdir_new)
      then have "mkdir flt f1 p False True = Inr (f1(p \<mapsto> Dir))" by (simp add: mkdir_False)
      with om np f1 show ?thesis by (simp add: unf)
    qed
  qed
qed

text \<open>
  Claim C5. When a regular file (or anything else) exists at the target, the item's
  pipeline returns normally and leaves the world as it was: no request is sent and
  nothing is written, whatever the mirrors would answer. When the target does not exist,
  no ancestor of it is a regular file and the operating system refuses none of them, the
  parent directories are made before the mirror loop starts: the loop runs in a file system where the parent is a directory and
  (the file system being well formed) so is every ancestor, what existed is kept, and
  nothing but ancestors of the target has been added. When making the parents fails, the
  call raises without any request. A parent that is already a directory is accepted as it
  is (\<open>exist_ok=True\<close>).
\<close>

theorem skip_guard:
  "(lookup (fs w) to_path = Some (File c) \<longrightarrow> download_item net to_path urls w = (Inr (), w)) \<and>
   (exists (fs w) to_path \<longrightarrow> download_item net to_path urls w = (Inr (), w)) \<and>
   (\<not> exists (fs w) to_path \<and>
    (\<forall>q c. prefix q (parent to_path) \<longrightarrow> lookup (fs w) q \<noteq> Some (File c)) \<and>
    (\<forall>q e. prefix q (parent to_path) \<longrightarrow> faults w q \<noteq> Some (Refused e)) \<longrightarrow>
      (\<exists>g. mkdir (faults w) (fs w) (parent to_path) True True = Inr g \<and>
           download_item net to_path urls w = mirrors net to_path urls [] (w\<lparr>fs := g\<rparr>) \<and>
           is_dir g (parent to_path) \<and>
           (wf_fs (fs w) \<longrightarrow> (\<forall>q. prefix q (parent to_path) \<longrightarrow> is_dir g q)) \<and>
           (\<forall>q. fs w q \<noteq> None \<longrightarrow> g q = fs w q) \<and>
           (\<forall>q. \<not> prefix q (parent to_path) \<longrightarrow> g q = fs w q))) \<and>
   (\<not> exists (fs w) to_path \<and> mkdir (faults w) (fs w) (parent to_path) True True = Inl e \<longrightarrow>
      download_item net to_path urls w = (Inl e, w)) \<and>
   (\<not> exists (fs w) to_path \<and> mkdir (faults w) (fs w) (parent to_path) True True = Inr f' \<longrightarrow>
      download_item net to_path urls w = mirrors net to_path urls [] (w\<lparr>fs := f'\<rparr>) \<and>
      is_dir f' (parent to_path) \<and>
      (\<forall>q. fs w q \<noteq> None \<longrightarrow> f' q = fs w q) \<and>
      (wf_fs (fs w) \<longrightarrow> (\<forall>q. prefix q (parent to_path) \<longrightarrow> is_dir f' q))) \<and>
   (is_dir (fs w) (parent to_path) \<longrightarrow> mkdir (faults w) (fs w) (parent to_path) True True = Inr (fs w))"
proof -
  have skip: "download_item net to_path urls w = (Inr (), w)" if "exists (fs w) to_path"
    using that by (simp add: download_item_def)
  have made: "download_item net to_path urls w = mirrors net to_path urls [] (w\<lparr>fs := g\<rparr>) \<and>
      is_dir g (parent to_path) \<and>
      (wf_fs (fs w) \<longrightarrow> (\<forall>q. prefix q (parent to_path) \<longrightarrow> is_dir g q)) \<and>
      (\<forall>q. fs w q \<noteq> None \<longrightarrow> g q = fs w q) \<and>
      (\<forall>q. \<not> prefix q (parent to_path) \<longrightarrow> g q = fs w q)"
    if n: "\<not> exists (fs w) to_path" and m: "mkdir (faults w) (fs w) (parent to_path) True True = Inr g" for g
  proof -
    note fr = mkdir_frame[OF m]
    from fr have d: "is_dir g (parent to_path)" by simp
    from fr have k: "g q = fs w q \<or> (fs w q = None \<and> g q = Some Dir \<and> prefix q (parent to_path))"
      for q by simp
    have 1: "download_item net to_path urls w = mirrors net to_path urls [] (w\<lparr>fs := g\<rparr>)"
      using n m by (simp add: download_item_def)
    have 2: "\<forall>q. prefix q (parent to_path) \<longrightarrow> is_dir g q" if wf: "wf_fs (fs w)"
    proof (intro allI impI)
      fix q assume "prefix q (parent to_path)"
      with mkdir_wf[OF wf m] d show "is_dir g q" by (rule wf_prefix_dir)
    qed
    have 3: "\<forall>q. fs w q \<noteq> None \<longrightarrow> g q = fs w q"
    proof (intro allI impI)
      fix q assume "fs w q \<noteq> None"
      with k[of q] show "g q = fs w q" by auto
    qed
    have 4: "\<forall>q. \<not> prefix q (parent to_path) \<longrightarrow> g q = fs w q"
    proof (intro allI impI)
      fix q assume "\<not> prefix q (parent to_path)"
      with k[of q] show "g q = fs w q" by auto
    qed
    from 1 d 2 3 4 show ?thesis by blast
  qed
  have c1: "lookup (fs w) to_path = Some (File c) \<longrightarrow> download_item net to_path urls w = (Inr (), w)"
    using skip by (simp add: exists_def)
  have c2: "exists (fs w) to_path \<longrightarrow> download_item net to_path urls w = (Inr (), w)"
    using skip by simp
  have c3: "\<not> exists (fs w) to_path \<and>
      (\<forall>q c. prefix q (parent to_path) \<longrightarrow> lookup (fs w) q \<noteq> Some (File c)) \<and>
      (\<forall>q e. prefix q (parent to_path) \<longrightarrow> faults w q \<noteq> Some (Refused e)) \<longrightarrow>
      (\<exists>g. mkdir (faults w) (fs w) (parent to_path) True True = Inr g \<and>
           download_item net to_path urls w = mirrors net to_path urls [] (w\<lparr>fs := g\<rparr>) \<and>
           is_dir g (parent to_path) \<and>
           (wf_fs (fs w) \<longrightarrow> (\<forall>q. prefix q (parent to_path) \<longrightarrow> is_dir g q)) \<and>
           (\<forall>q. fs w q \<noteq> None \<longrightarrow> g q = fs w q) \<and>
           (\<forall>q. \<not> prefix q (parent to_path) \<longrightarrow> g q = fs w q))"
  proof
    assume a: "\<not> exists (fs w) to_path \<and>
      (\<forall>q c. prefix q (parent to_path) \<longrightarrow> lookup (fs w) q \<noteq> Some (File c)) \<and>
      (\<forall>q e. prefix q (parent to_path) \<longrightarrow> faults w q \<noteq> Some (Refused e))"
    then have "\<exists>g. mkdir (faults w) (fs w) (parent to_path) True True = Inr g"
      by (intro mkdir_succeeds) simp_all
    then obtain g where g: "mkdir (faults w) (fs w) (parent to_path) True True = Inr g" ..
    from a have "\<not> exists (fs w) to_path" by simp
    from made[OF this g] g
    show "\<exists>g. mkdir (faults w) (fs w) (parent to_path) True True = Inr g \<and>
           download_item net to_path urls w = mirrors net to_path urls [] (w\<lparr>fs := g\<rparr>) \<and>
           is_dir g (parent to_path) \<and>
           (wf_fs (fs w) \<longrightarrow> (\<forall>q. prefix q (parent to_path) \<longrightarrow> is_dir g q)) \<and>
           (\<forall>q. fs w q \<noteq> None \<longrightarrow> g q = fs w q) \<and>
           (\<forall>q. \<not> prefix q (parent to_path) \<longrightarrow> g q = fs w q)"
      by (intro exI[of _ g]) simp
  qed
  have c4: "\<not> exists (fs w) to_path \<and> mkdir (faults w) (fs w) (parent to_path) True True = Inl e \<longrightarrow>
      download_item net to_path urls w = (Inl e, w)"
    by (simp add: download_item_def)
  have c5: "\<not> exists (fs w) to_path \<and> mkdir (faults w) (fs w) (parent to_path) True True = Inr f' \<longrightarrow>
      download_item net to_path urls w = mirrors net to_path urls [] (w\<lparr>fs := f'\<rparr>) \<and>
      is_dir f' (parent to_path) \<and>
      (\<forall>q. fs w q \<noteq> None \<longrightarrow> f' q = fs w q) \<and>
      (wf_fs (fs w) \<longrightarrow> (\<forall>q. prefix q (parent to_path) \<longrightarrow> is_dir f' q))"
    using made[of f'] by blast
  have c6: "is_dir (fs w) (parent to_path) \<longrightarrow> mkdir (faults w) (fs w) (parent to_path) True True = Inr (fs w)"
    by (simp add: mkdir_exist_ok)
  from c1 c2 c3 c4 c5 c6 show ?thesis by (intro conjI)
qed


theorem skip_guard_witness:
  "download_item (\<lambda>u hs. Unreachable) [''out'', ''ch'', ''0.jpg''] [''http://m1/0.jpg'']
     \<lparr>fs = [[''out''] \<mapsto> Dir, [''out'', ''ch''] \<mapsto> Dir, [''out'', ''ch'', ''0.jpg''] \<mapsto> File ''old''],
      requests = [], logged = [], faults = Map.empty\<rparr> =
   (Inr (),
    \<lparr>fs = [[''out''] \<mapsto> Dir, [''out'', ''ch''] \<mapsto> Dir, [''out'', ''ch'', ''0.jpg''] \<mapsto> File ''old''],
     requests = [], logged = [], faults = Map.empty\<rparr>) \<and>
   fs (snd (download_item (\<lambda>u hs. Response 200 ''img'') [''out'', ''ch'', ''0.jpg'']
     [''http://m1/0.jpg''] \<lparr>fs = Map.empty, requests = [], logged = [], faults = Map.empty\<rparr>))
     [''out''] = Some Dir \<and>
   fs (snd (download_item (\<lambda>u hs. Response 200 ''img'') [''out'', ''ch'', ''0.jpg'']
     [''http://m1/0.jpg''] \<lparr>fs = Map.empty, requests = [], logged = [], faults = Map.empty\<rparr>))
     [''out'', ''ch''] = Some Dir \<and>
   fs (snd (download_item (\<lambda>u hs. Response 200 ''img'') [''out'', ''ch'', ''0.jpg'']
     [''http://m1/0.jpg''] \<lparr>fs = Map.empty, requests = [], logged = [], faults = Map.empty\<rparr>))
     [''out'', ''ch'', ''0.jpg''] = Some (File ''img'') \<and>
   fs (snd (download_item (\<lambda>u hs. Unreachable) [''out'', ''ch'', ''0.jpg'']
     [''http://m1/0.jpg''] \<lparr>fs = Map.empty, requests = [], logged = [], faults = Map.empty\<rparr>))
     [''out'', ''ch''] = Some Dir \<and>
   fst (download_item (\<lambda>u hs. Unreachable) [''out'', ''ch'', ''0.jpg''] [''http://m1/0.jpg'']
     \<lparr>fs = [[''out''] \<mapsto> File ''x''], requests = [], logged = [], faults = Map.empty\<rparr>) =
     Inl NotADirectoryError \<and>
   requests (snd (download_item (\<lambda>u hs. Unreachable) [''out'', ''ch'', ''0.jpg''] [''http://m1/0.jpg'']
     \<lparr>fs = [[''out''] \<mapsto> File ''x''], requests = [], logged = [], faults = Map.empty\<rparr>)) = [] \<and>
   download_item (\<lambda>u hs. Response 200 ''img'') [''out'', ''ch'', ''0.jpg''] [''http://m1/0.jpg'']
     \<lparr>fs = Map.empty, requests = [], logged = [],
      faults = [[''out''] \<mapsto> Refused (OSError ''EACCES'')]\<rparr> =
   (Inl (OSError ''EACCES''),
    \<lparr>fs = Map.empty, requests = [], logged = [],
     faults = [[''out''] \<mapsto> Refused (OSError ''EACCES'')]\<rparr>)"
  using
    skip_guard [of "\<lparr>fs = [[''out''] \<mapsto> Dir, [''out'', ''ch''] \<mapsto> Dir,
                          [''out'', ''ch'', ''0.jpg''] \<mapsto> File ''old''],
                     requests = [], logged = [], faults = Map.empty\<rparr>"
                "[''out'', ''ch'', ''0.jpg'']" "''old''" "\<lambda>u hs. Unreachable" "[''http://m1/0.jpg'']"
                FileNotFoundError "Map.empty"]
    skip_guard [of "\<lparr>fs = Map.empty, requests = [], logged = [], faults = Map.empty\<rparr>"
                "[''out'', ''ch'', ''0.jpg'']" "''old''" "\<lambda>u hs. Response 200 ''img''"
                "[''http://m1/0.jpg'']"
                FileNotFoundError "[[''out''] \<mapsto> Dir, [''out'', ''ch''] \<mapsto> Dir]"]
    skip_guard [of "\<lparr>fs = Map.empty, requests = [], logged = [], faults = Map.empty\<rparr>"
                "[''out'', ''ch'', ''0.jpg'']" "''old''" "\<lambda>u hs. Unreachable"
                "[''http://m1/0.jpg'']"
                FileNotFoundError "[[''out''] \<mapsto> Dir, [''out'', ''ch''] \<mapsto> Dir]"]
    skip_guard [of "\<lparr>fs = [[''out''] \<mapsto> File ''x''], requests = [], logged = [], faults = Map.empty\<rparr>"
                "[''out'', ''ch'', ''0.jpg'']" "''old''" "\<lambda>u hs. Unreachable" "[''http://m1/0.jpg'']"
                NotADirectoryError "Map.empty"]
    skip_guard [of "\<lparr>fs = Map.empty, requests = [], logged = [],
                      faults = [[''out''] \<mapsto> Refused (OSError ''EACCES'')]\<rparr>"
                "[''out'', ''ch'', ''0.jpg'']" "''old''" "\<lambda>u hs. Response 200 ''img''"
                "[''http://m1/0.jpg'']" "OSError ''EACCES''" "Map.empty"]
  by (simp add: exists_def lookup_def parent_def mkdir.simps os_mkdir_def is_dir_def wf_fs_def
      attempt_def download_url_def read_response_def open_write_def write_file_def send_def
      log_exception_def)

section \<open>Target paths\<close>

lemma comprehension_all_ok:
  "(\<And>x. x \<in> set xs \<Longrightarrow> f x = Inr (g x)) \<Longrightarrow> comprehension f xs = Inr (map g xs)"
  by (induction xs) simp_all

lemma split_on_plain: "c \<notin> set s \<Longrightarrow> split_on c s = [s]"
  by (induction s) auto

lemma parts_of_plain: "plain s \<Longrightarrow> parts_of s = [s]"
  by (cases s) (auto simp: plain_def parts_of_def startswith_def split_on_plain)

lemma truediv_plain: "plain s \<Longrightarrow> truediv p s = p @ [s]"
  by (cases s) (auto simp: truediv_def parts_of_plain plain_def startswith_def)

lemma digit_char: "d < 10 \<Longrightarrow> ''0123456789'' ! d \<in> set ''0123456789''"
  by (rule nth_mem) simp

lemma str_nat_digits: "str_nat n \<noteq> [] \<and> set (str_nat n) \<subseteq> set ''0123456789''"
proof (induction n rule: str_nat.induct)
  case (1 n)
  show ?case
  proof (cases "n < 10")
    case True
    with digit_char[of n] show ?thesis by (subst (1 2) str_nat.simps) simp
  next
    case False
    have "n mod 10 < 10" by simp
    from digit_char[OF this] "1"[OF False] False show ?thesis
      by (subst (1 2) str_nat.simps) simp
  qed
qed

lemma plain_page_name: "plain (str_nat i @ ''.jpg'')"
proof -
  from str_nat_digits[of i] have "CHR ''/'' \<notin> set (str_nat i)" by auto
  moreover from str_nat_digits[of i] have "str_nat i \<noteq> []" by simp
  ultimately show ?thesis by (cases "str_nat i") (auto simp: plain_def)
qed

lemma digit_inj: "a < 10 \<Longrightarrow> b < 10 \<Longrightarrow> ''0123456789'' ! a = ''0123456789'' ! b \<Longrightarrow> a = b"
proof -
  assume a: "a < 10" and b: "b < 10" and e: "''0123456789'' ! a = ''0123456789'' ! b"
  have d: "distinct ''0123456789''" by simp
  have "a < length ''0123456789''" "b < length ''0123456789''" using a b by simp_all
  with d e show "a = b" by (simp only: nth_eq_iff_index_eq)
qed

lemma str_nat_small: "n < 10 \<Longrightarrow> str_nat n = [''0123456789'' ! n]"
  by (subst str_nat.simps) simp

lemma str_nat_big:
  "\<not> n < 10 \<Longrightarrow> str_nat n = str_nat (n div 10) @ [''0123456789'' ! (n mod 10)]"
  by (subst str_nat.simps) simp

lemma str_nat_inj: "str_nat m = str_nat n \<Longrightarrow> m = n"
proof (induction m arbitrary: n rule: str_nat.induct)
  case (1 m)
  show ?case
  proof (cases "m < 10")
    case m: True
    show ?thesis
    proof (cases "n < 10")
      case True
      with m "1.prems" show ?thesis by (simp add: str_nat_small digit_inj)
    next
      case False
      from str_nat_digits[of "n div 10"] have "str_nat (n div 10) \<noteq> []" by simp
      with m False "1.prems" show ?thesis by (simp add: str_nat_small str_nat_big)
    qed
  next
    case m: False
    show ?thesis
    proof (cases "n < 10")
      case True
      from str_nat_digits[of "m div 10"] have "str_nat (m div 10) \<noteq> []" by simp
      with m True "1.prems" show ?thesis by (simp add: str_nat_small str_nat_big)
    next
      case False
      with m "1.prems" have e: "str_nat (m div 10) = str_nat (n div 10)"
        and d: "''0123456789'' ! (m mod 10) = ''0123456789'' ! (n mod 10)"
        by (simp_all add: str_nat_big)
      from "1.IH"[OF m e] have "m div 10 = n div 10" .
      moreover have "m mod 10 = n mod 10" using d by (intro digit_inj) simp_all
      ultimately show ?thesis by (metis div_mult_mod_eq)
    qed
  qed
qed

lemma nth_enumerate0: "i < length xs \<Longrightarrow> enumerate 0 xs ! i = (i, xs ! i)"
  by (simp add: nth_enumerate_eq)

text \<open>
  Claim C8, as the code has it. For a chapter whose number is a string,
  \<open>download_chapter\<close> builds one item per page of the resolved page list, in the list's
  order; the target of page \<open>i\<close> (counted from 0) is
  \<open>path / chapter['number'] / f"{i}.jpg"\<close>, where \<open>path\<close> is the output root joined with the
  slug. When slug and chapter number are single path components, this is the path
  \<open><root>/<slug>/<number>/<i>.jpg\<close>, and the targets of different pages differ.
\<close>

theorem chapter_targets:
  assumes "number c = JStr k"
  shows "\<exists>items. chapter_items p c pages = Inr items \<and> length items = length pages \<and>
     (\<forall>i<length pages.
        items ! i = (truediv (truediv p k) (str_nat i @ ''.jpg''), pages ! i)) \<and>
     (plain slug \<and> plain k \<and> p = truediv root slug \<longrightarrow>
        (\<forall>i<length pages. fst (items ! i) = root @ [slug, k, str_nat i @ ''.jpg'']) \<and>
        distinct (map fst items))"
proof -
  let ?g = "\<lambda>(i, page_urls). (truediv (truediv p k) (str_nat i @ ''.jpg''), page_urls)"
  let ?items = "map ?g (enumerate 0 pages)"
  have eq: "chapter_items p c pages = Inr ?items"
    unfolding chapter_items_def
    by (rule comprehension_all_ok) (auto simp: assms)
  have len: "length ?items = length pages" by simp
  have nth: "?items ! i = (truediv (truediv p k) (str_nat i @ ''.jpg''), pages ! i)"
    if "i < length pages" for i
    using that by (simp add: nth_enumerate0)
  have pl: "(\<forall>i<length pages. fst (?items ! i) = root @ [slug, k, str_nat i @ ''.jpg'']) \<and>
        distinct (map fst ?items)"
    if h: "plain slug \<and> plain k \<and> p = truediv root slug"
  proof -
    have t: "truediv (truediv p k) (str_nat i @ ''.jpg'') = root @ [slug, k, str_nat i @ ''.jpg'']"
      for i
      using h by (simp add: truediv_plain plain_page_name)
    have fsts: "map fst ?items = map (\<lambda>i. root @ [slug, k, str_nat i @ ''.jpg'']) [0..<length pages]"
      by (rule nth_equalityI) (simp_all add: nth_enumerate0 t)
    have "inj (\<lambda>i. root @ [slug, k, str_nat i @ ''.jpg''])"
      by (rule injI) (simp add: str_nat_inj)
    then have "distinct (map fst ?items)"
      unfolding fsts by (simp add: distinct_map inj_on_def inj_def)
    moreover have "\<forall>i<length pages. fst (?items ! i) = root @ [slug, k, str_nat i @ ''.jpg'']"
      using nth t by simp
    ultimately show ?thesis by simp
  qed
  from eq len nth pl show ?thesis by blast
qed

theorem chapter_targets_witness:
  "chapter_items (truediv [''out''] ''jojo'')
     \<lparr>name = JStr ''Start'', volume = JInt 1, number = JStr ''5'',
      url = ''https://mangalib.me/jojo/v1/c5''\<rparr>
     [[''http://s1/a.jpg'', ''http://s2/a.jpg''], [''http://s1/b.jpg'']] =
   Inr [([''out'', ''jojo'', ''5'', ''0.jpg''], [''http://s1/a.jpg'', ''http://s2/a.jpg'']),
        ([''out'', ''jojo'', ''5'', ''1.jpg''], [''http://s1/b.jpg''])] \<and>
   plain ''jojo'' \<and> plain ''5''"
proof -
  have n: "number \<lparr>name = JStr ''Start'', volume = JInt 1, number = JStr ''5'',
      url = ''https://mangalib.me/jojo/v1/c5''\<rparr> = JStr ''5''"
    by simp
  have p: "plain ''jojo''" "plain ''5''" by (simp_all add: plain_def)
  have q: "plain ''0.jpg''" "plain ''1.jpg''" by (simp_all add: plain_def)
  from chapter_targets[OF n, of "truediv [''out''] ''jojo''"
      "[[''http://s1/a.jpg'', ''http://s2/a.jpg''], [''http://s1/b.jpg'']]" "''jojo''" "[''out'']"]
  obtain items where i: "chapter_items (truediv [''out''] ''jojo'')
     \<lparr>name = JStr ''Start'', volume = JInt 1, number = JStr ''5'',
      url = ''https://mangalib.me/jojo/v1/c5''\<rparr>
     [[''http://s1/a.jpg'', ''http://s2/a.jpg''], [''http://s1/b.jpg'']] = Inr items"
    and l: "length items = 2"
    and a: "items ! 0 = (truediv (truediv (truediv [''out''] ''jojo'') ''5'') (str_nat 0 @ ''.jpg''),
             [''http://s1/a.jpg'', ''http://s2/a.jpg''])"
    and b: "items ! 1 = (truediv (truediv (truediv [''out''] ''jojo'') ''5'') (str_nat 1 @ ''.jpg''),
             [''http://s1/b.jpg''])"
    by auto
  from l obtain x y where xy: "items = [x, y]"
    by (cases items; cases "tl items"; auto)
  with a b i p q show ?thesis
    by (simp add: truediv_plain str_nat_small)
qed

text \<open>
  Claim C8 as stated fails: the chapter number comes from the catalog as it is. A number
  that starts with \<open>/\<close> is an absolute path and replaces output root and slug, so the
  target is not below the output root; a number that is not a string makes the join raise
  \<open>TypeError\<close>, so no target is built.
\<close>

theorem chapter_number_can_leave_the_root:
  "chapter_items (truediv [''out''] ''jojo'')
     \<lparr>name = JStr ''Start'', volume = JInt 1, number = JStr ''/tmp'',
      url = ''https://mangalib.me/jojo/v1/c/tmp''\<rparr>
     [[''http://s1/a.jpg'']] =
   Inr [([''/'', ''tmp'', ''0.jpg''], [''http://s1/a.jpg''])] \<and>
   chapter_items (truediv [''out''] ''jojo'')
     \<lparr>name = JStr ''Start'', volume = JInt 1, number = JInt 5,
      url = ''https://mangalib.me/jojo/v1/c5''\<rparr>
     [[''http://s1/a.jpg'']] = Inl TypeError"
  by (simp add: chapter_items_def truediv_def parts_of_def startswith_def str_nat_small)

section \<open>The chapter list\<close>

lemma comprehension_Inr:
  "comprehension f xs = Inr ys \<Longrightarrow>
   length ys = length xs \<and> (\<forall>i<length xs. f (xs ! i) = Inr (ys ! i))"
proof (induction xs arbitrary: ys)
  case Nil
  then show ?case by simp
next
  case (Cons x xs)
  from Cons.prems obtain y zs where y: "f x = Inr y" and zs: "comprehension f xs = Inr zs"
    and ys: "ys = y # zs"
    by (auto split: sum.splits)
  from Cons.IH[OF zs] have l: "length zs = length xs"
    and n: "\<And>i. i < length xs \<Longrightarrow> f (xs ! i) = Inr (zs ! i)"
    by simp_all
  show ?case
  proof (intro conjI allI impI)
    show "length ys = length (x # xs)" using l ys by simp
  next
    fix i assume "i < length (x # xs)"
    then show "f ((x # xs) ! i) = Inr (ys ! i)"
      using y n ys by (cases i) simp_all
  qed
qed

lemma parse_chapter_ok:
  assumes "\<not> isl (getitem c ''chapter_name'')" "\<not> isl (getitem c ''chapter_volume'')"
    "\<not> isl (getitem c ''chapter_number'')"
  shows "parse_chapter base c =
     Inr \<lparr>name = projr (getitem c ''chapter_name''), volume = projr (getitem c ''chapter_volume''),
          number = projr (getitem c ''chapter_number''),
          url = base @ ''/v'' @ py_str (projr (getitem c ''chapter_volume'')) @ ''/c'' @
                py_str (projr (getitem c ''chapter_number''))\<rparr>"
  using assms by (auto simp: parse_chapter_def split: sum.splits)

lemma parse_chapter_Inr:
  "parse_chapter base c = Inr e \<Longrightarrow>
   getitem c ''chapter_name'' = Inr (name e) \<and>
   getitem c ''chapter_volume'' = Inr (volume e) \<and>
   getitem c ''chapter_number'' = Inr (number e) \<and>
   url e = base @ ''/v'' @ py_str (volume e) @ ''/c'' @ py_str (number e)"
  by (auto simp: parse_chapter_def split: sum.splits)

lemma parse_chapters_Inr:
  "parse_chapters d = Inr cs \<Longrightarrow>
   \<exists>slug. getitem (manga d) ''slug'' = Inr (JStr slug) \<and>
     comprehension (parse_chapter (base_url @ slug)) (rev (chapters d)) = Inr cs"
  by (auto simp: parse_chapters_def split: sum.splits jval.splits)

text \<open>
  Claim C9. Whenever \<open>_parse_chapters\<close> returns a list, the slug is a string and the list
  is as long as the raw array; its element \<open>i\<close> is built from raw element \<open>n - 1 - i\<close>:
  name, volume and number are copied, and the url is
  \<open>https://mangalib.me/<slug>/v<volume>/c<number>\<close>. It does return a list when the slug is
  a string and every raw chapter has the keys \<open>chapter_name\<close>, \<open>chapter_volume\<close> and
  \<open>chapter_number\<close>. The list that a constructed downloader exposes is this list.
\<close>

theorem parse_chapters_reversed:
  "(parse_chapters d = Inr cs \<longrightarrow>
      (\<exists>slug. getitem (manga d) ''slug'' = Inr (JStr slug) \<and>
         length cs = length (chapters d) \<and>
         (\<forall>i<length cs.
            getitem (chapters d ! (length cs - 1 - i)) ''chapter_name'' = Inr (name (cs ! i)) \<and>
            getitem (chapters d ! (length cs - 1 - i)) ''chapter_volume'' = Inr (volume (cs ! i)) \<and>
            getitem (chapters d ! (length cs - 1 - i)) ''chapter_number'' = Inr (number (cs ! i)) \<and>
            url (cs ! i) = ''https://mangalib.me/'' @ slug @ ''/v'' @ py_str (volume (cs ! i)) @
                           ''/c'' @ py_str (number (cs ! i))))) \<and>
   ((\<exists>slug. getitem (manga d) ''slug'' = Inr (JStr slug)) \<and>
    (\<forall>c\<in>set (chapters d). \<not> isl (getitem c ''chapter_name'') \<and>
        \<not> isl (getitem c ''chapter_volume'') \<and> \<not> isl (getitem c ''chapter_number'')) \<longrightarrow>
      (\<exists>cs. parse_chapters d = Inr cs)) \<and>
   (init net loads_data manga_url w = (Inr dl, w') \<longrightarrow>
      parse_chapters (data dl) = Inr (parsed_chapters dl))"
proof (intro conjI impI)
  assume "parse_chapters d = Inr cs"
  from parse_chapters_Inr[OF this] obtain slug where
    s: "getitem (manga d) ''slug'' = Inr (JStr slug)"
    and c: "comprehension (parse_chapter (base_url @ slug)) (rev (chapters d)) = Inr cs"
    by blast
  from comprehension_Inr[OF c] have l: "length cs = length (chapters d)"
    and n: "\<And>i. i < length (chapters d) \<Longrightarrow>
              parse_chapter (base_url @ slug) (rev (chapters d) ! i) = Inr (cs ! i)"
    by simp_all
  have "getitem (chapters d ! (length cs - 1 - i)) ''chapter_name'' = Inr (name (cs ! i)) \<and>
        getitem (chapters d ! (length cs - 1 - i)) ''chapter_volume'' = Inr (volume (cs ! i)) \<and>
        getitem (chapters d ! (length cs - 1 - i)) ''chapter_number'' = Inr (number (cs ! i)) \<and>
        url (cs ! i) = ''https://mangalib.me/'' @ slug @ ''/v'' @ py_str (volume (cs ! i)) @
                       ''/c'' @ py_str (number (cs ! i))"
    if i: "i < length cs" for i
  proof -
    from i l have i': "i < length (chapters d)" by simp
    then have r: "rev (chapters d) ! i = chapters d ! (length cs - 1 - i)"
      using l by (simp add: rev_nth)
    from n[OF i'] r
    have "parse_chapter (base_url @ slug) (chapters d ! (length cs - 1 - i)) = Inr (cs ! i)"
      by simp
    from parse_chapter_Inr[OF this] show ?thesis by (simp add: base_url_def)
  qed
  with s l show "\<exists>slug. getitem (manga d) ''slug'' = Inr (JStr slug) \<and>
         length cs = length (chapters d) \<and>
         (\<forall>i<length cs.
            getitem (chapters d ! (length cs - 1 - i)) ''chapter_name'' = Inr (name (cs ! i)) \<and>
            getitem (chapters d ! (length cs - 1 - i)) ''chapter_volume'' = Inr (volume (cs ! i)) \<and>
            getitem (chapters d ! (length cs - 1 - i)) ''chapter_number'' = Inr (number (cs ! i)) \<and>
            url (cs ! i) = ''https://mangalib.me/'' @ slug @ ''/v'' @ py_str (volume (cs ! i)) @
                           ''/c'' @ py_str (number (cs ! i)))"
    by blast
next
  assume a: "(\<exists>slug. getitem (manga d) ''slug'' = Inr (JStr slug)) \<and>
    (\<forall>c\<in>set (chapters d). \<not> isl (getitem c ''chapter_name'') \<and>
        \<not> isl (getitem c ''chapter_volume'') \<and> \<not> isl (getitem c ''chapter_number''))"
  then obtain slug where s: "getitem (manga d) ''slug'' = Inr (JStr slug)" by blast
  let ?base = "base_url @ slug"
  let ?g = "\<lambda>c. \<lparr>name = projr (getitem c ''chapter_name''),
          volume = projr (getitem c ''chapter_volume''),
          number = projr (getitem c ''chapter_number''),
          url = ?base @ ''/v'' @ py_str (projr (getitem c ''chapter_volume'')) @ ''/c'' @
                py_str (projr (getitem c ''chapter_number''))\<rparr>"
  have "comprehension (parse_chapter ?base) (rev (chapters d)) = Inr (map ?g (rev (chapters d)))"
    by (rule comprehension_all_ok) (use a in \<open>simp add: parse_chapter_ok\<close>)
  with s show "\<exists>cs. parse_chapters d = Inr cs"
    by (simp add: parse_chapters_def)
next
  assume "init net loads_data manga_url w = (Inr dl, w')"
  then show "parse_chapters (data dl) = Inr (parsed_chapters dl)"
    by (auto simp: init_def split: if_splits prod.splits sum.splits)
qed

theorem parse_chapters_reversed_witness:
  "init (\<lambda>u hs. Response 200 ''<html>'')
     (\<lambda>html. Inr \<lparr>manga = [(''slug'', JStr ''jojo'')],
        chapters =
          [[(''chapter_name'', JStr ''Last''), (''chapter_volume'', JInt 2),
            (''chapter_number'', JStr ''10'')],
           [(''chapter_name'', JStr ''First''), (''chapter_volume'', JInt 1),
            (''chapter_number'', JStr ''1'')]]\<rparr>)
     ''https://mangalib.me/jojo''
     \<lparr>fs = Map.empty, requests = [], logged = [], faults = Map.empty\<rparr> =
   (Inr \<lparr>data = \<lparr>manga = [(''slug'', JStr ''jojo'')],
        chapters =
          [[(''chapter_name'', JStr ''Last''), (''chapter_volume'', JInt 2),
            (''chapter_number'', JStr ''10'')],
           [(''chapter_name'', JStr ''First''), (''chapter_volume'', JInt 1),
            (''chapter_number'', JStr ''1'')]]\<rparr>,
      parsed_chapters =
        [\<lparr>name = JStr ''First'', volume = JInt 1, number = JStr ''1'',
          url = ''https://mangalib.me/jojo/v1/c1''\<rparr>,
         \<lparr>name = JStr ''Last'', volume = JInt 2, number = JStr ''10'',
          url = ''https://mangalib.me/jojo/v2/c10''\<rparr>]\<rparr>,
    \<lparr>fs = Map.empty,
     requests = [\<lparr>req_url = ''https://mangalib.me/jojo'', req_headers = []\<rparr>],
     logged = [], faults = Map.empty\<rparr>)"
  using parse_chapters_reversed
    [of "\<lparr>manga = [(''slug'', JStr ''jojo'')],
        chapters =
          [[(''chapter_name'', JStr ''Last''), (''chapter_volume'', JInt 2),
            (''chapter_number'', JStr ''10'')],
           [(''chapter_name'', JStr ''First''), (''chapter_volume'', JInt 1),
            (''chapter_number'', JStr ''1'')]]\<rparr>"
        "[\<lparr>name = JStr ''First'', volume = JInt 1, number = JStr ''1'',
          url = ''https://mangalib.me/jojo/v1/c1''\<rparr>,
         \<lparr>name = JStr ''Last'', volume = JInt 2, number = JStr ''10'',
          url = ''https://mangalib.me/jojo/v2/c10''\<rparr>]"]
  by (simp add: init_def get_manga_data_def requests_get_def send_def parse_chapters_def
      parse_chapter_def getitem_def base_url_def startswith_def str_nat.simps)

section \<open>Request headers\<close>

lemma attempt_requests:
  "requests (snd (attempt net p u w)) = requests w @ sent [u]"
proof (cases "read_response (net u referer)")
  case (Inl e)
  then show ?thesis by (simp add: attempt_fail[of net u e] send_def sent_def)
next
  case (Inr page)
  then show ?thesis
    by (simp add: attempt_fetched[of net u page] open_write_other send_def sent_def)
qed

lemma mirrors_requests:
  "\<exists>n\<le>length us. requests (snd (mirrors net p us acc w)) = requests w @ sent (take n us)"
proof (induction us arbitrary: acc w)
  case Nil
  then show ?case by (simp add: sent_def)
next
  case (Cons u us)
  obtain r w1 where a: "attempt net p u w = (r, w1)" by (cases "attempt net p u w")
  with attempt_requests[of net p u w] have rq: "requests w1 = requests w @ sent [u]" by simp
  show ?case
  proof (cases r)
    case (Inr x)
    with a rq have "requests (snd (mirrors net p (u # us) acc w)) = requests w @ sent (take 1 (u # us))"
      by simp
    then show ?thesis by (intro exI[of _ 1]) simp
  next
    case (Inl e)
    from Cons.IH[of "acc @ [(u, e)]" "log_exception e w1"] obtain n where
      n: "n \<le> length us"
      and m: "requests (snd (mirrors net p us (acc @ [(u, e)]) (log_exception e w1))) =
              requests (log_exception e w1) @ sent (take n us)"
      by blast
    from Inl a m rq have "requests (snd (mirrors net p (u # us) acc w)) =
        requests w @ sent (take (Suc n) (u # us))"
      by (simp add: log_exception_def sent_def)
    with n show ?thesis by (intro exI[of _ "Suc n"]) simp
  qed
qed

text \<open>
  Claim C3, as the code has it. Every image fetch carries the header
  \<open>referer: https://mangalib.me/\<close>: the single fetch does, and so does every request that
  an item's pipeline sends (the requests go to an initial part of the mirror list, in
  order). The catalog fetch and the chapter-page fetch pass no header.
\<close>

theorem referer_on_image_fetches_only:
  "requests (snd (download_url net u w)) =
     requests w @ [\<lparr>req_url = u, req_headers = [(''referer'', ''https://mangalib.me/'')]\<rparr>] \<and>
   (\<exists>n\<le>length urls.
      requests (snd (download_item net to_path urls w)) =
        requests w @
        map (\<lambda>u. \<lparr>req_url = u, req_headers = [(''referer'', ''https://mangalib.me/'')]\<rparr>)
          (take n urls)) \<and>
   requests (snd (get_manga_data net loads_data manga_url w)) =
     requests w @ [\<lparr>req_url = manga_url, req_headers = []\<rparr>] \<and>
   requests (snd (get_chapter_pages net loads_pages chapter_url w)) =
     requests w @ [\<lparr>req_url = chapter_url, req_headers = []\<rparr>]"
proof (intro conjI)
  show "requests (snd (download_url net u w)) =
     requests w @ [\<lparr>req_url = u, req_headers = [(''referer'', ''https://mangalib.me/'')]\<rparr>]"
    by (simp add: download_url_def send_def referer_def)
next
  show "\<exists>n\<le>length urls.
      requests (snd (download_item net to_path urls w)) =
        requests w @
        map (\<lambda>u. \<lparr>req_url = u, req_headers = [(''referer'', ''https://mangalib.me/'')]\<rparr>)
          (take n urls)"
  proof (cases "exists (fs w) to_path")
    case True
    then have "requests (snd (download_item net to_path urls w)) = requests w"
      by (simp add: download_item_def)
    then show ?thesis by (intro exI[of _ 0]) simp
  next
    case False
    show ?thesis
    proof (cases "mkdir (faults w) (fs w) (parent to_path) True True")
      case (Inl e)
      with False have "requests (snd (download_item net to_path urls w)) = requests w"
        by (simp add: download_item_def)
      then show ?thesis by (intro exI[of _ 0]) simp
    next
      case (Inr g)
      with False have d: "download_item net to_path urls w =
          mirrors net to_path urls [] (w\<lparr>fs := g\<rparr>)"
        by (simp add: download_item_def)
      from mirrors_requests[of urls net to_path "[]" "w\<lparr>fs := g\<rparr>"] d
      show ?thesis by (simp add: sent_def referer_def)
    qed
  qed
next
  show "requests (snd (get_manga_data net loads_data manga_url w)) =
     requests w @ [\<lparr>req_url = manga_url, req_headers = []\<rparr>]"
    by (simp add: get_manga_data_def requests_get_def send_def split: reply.splits sum.splits)
next
  show "requests (snd (get_chapter_pages net loads_pages chapter_url w)) =
     requests w @ [\<lparr>req_url = chapter_url, req_headers = []\<rparr>]"
    by (simp add: get_chapter_pages_def requests_get_def send_def split: reply.splits sum.splits)
qed

text \<open>
  Claim C3 as stated fails: the request for the catalog, which the constructor sends, and
  the request for a chapter page carry no referer header.
\<close>

theorem catalog_fetch_without_referer:
  "requests (snd (init (\<lambda>u hs. Response 200 ''<html>'') (\<lambda>html. Inl IndexError)
      ''https://mangalib.me/jojo''
      \<lparr>fs = Map.empty, requests = [], logged = [], faults = Map.empty\<rparr>)) =
     [\<lparr>req_url = ''https://mangalib.me/jojo'', req_headers = []\<rparr>] \<and>
   requests (snd (get_chapter_pages (\<lambda>u hs. Response 200 ''<html>'') (\<lambda>html. Inl IndexError)
      ''https://mangalib.me/jojo/v1/c1''
      \<lparr>fs = Map.empty, requests = [], logged = [], faults = Map.empty\<rparr>)) =
     [\<lparr>req_url = ''https://mangalib.me/jojo/v1/c1'', req_headers = []\<rparr>]"
  by (simp add: init_def get_manga_data_def get_chapter_pages_def requests_get_def send_def
      base_url_def startswith_def)

section \<open>The batch and its outcome\<close>
































lemma gather_done: "verdict ts \<noteq> Pending \<Longrightarrow> gather net sched ts w = (verdict ts, ts, w)"
  by (cases sched) simp_all





text \<open>
  A batch of one item does what the item's pipeline does on its own: the steps of a task
  are those of \<open>download_item\<close>.
\<close>

lemma verdict_Done:
  "verdict [Done (Inl e)] = Raised e" "verdict [Done (Inr r)] = Returned"
  by (simp_all add: verdict_def waiting_def)

lemma gather_single:
  "length us < length sched \<Longrightarrow>
   gather net sched [Waiting p u us es] (send u referer w) =
     (case mirrors net p (u # us) es w of
        (Inl e, w') \<Rightarrow> (Raised e, [Done (Inl e)], w')
      | (Inr r, w') \<Rightarrow> (Returned, [Done (Inr ())], w'))"
proof (induction us arbitrary: u es w sched)
  case Nil
  then obtain k rest where sched: "sched = k # rest" by (cases sched) auto
  have v: "verdict [Waiting p u [] es] = Pending" "pick k [Waiting p u [] es] = 0"
    by (simp_all add: verdict_def waiting_def pick_def)
  show ?case
  proof (cases "read_response (net u referer)")
    case (Inl e)
    then show ?thesis
      by (simp add: sched v resume_def next_mirror_def attempt_fail[of net u e] gather_done
          verdict_Done)
  next
    case (Inr page)
    obtain r w1 where ow: "open_write p page (send u referer w) = (r, w1)"
      by (cases "open_write p page (send u referer w)")
    with Inr show ?thesis
      by (cases r)
        (simp_all add: sched v resume_def next_mirror_def attempt_fetched[of net u page]
          gather_done verdict_Done)
  qed
next
  case (Cons u' us')
  then obtain k rest where sched: "sched = k # rest" and len: "length us' < length rest"
    by (cases sched) auto
  have v: "verdict [Waiting p u (u' # us') es] = Pending" "pick k [Waiting p u (u' # us') es] = 0"
    by (simp_all add: verdict_def waiting_def pick_def)
  show ?case
  proof (cases "read_response (net u referer)")
    case (Inl e)
    have "gather net sched [Waiting p u (u' # us') es] (send u referer w) =
        gather net rest [Waiting p u' us' (es @ [(u, e)])]
          (send u' referer (log_exception e (send u referer w)))"
      by (simp add: sched v resume_def next_mirror_def Inl)
    also note Cons.IH[OF len, of u' "es @ [(u, e)]" "log_exception e (send u referer w)"]
    finally show ?thesis by (simp add: attempt_fail[of net u e, OF Inl])
  next
    case (Inr page)
    obtain r w1 where ow: "open_write p page (send u referer w) = (r, w1)"
      by (cases "open_write p page (send u referer w)")
    show ?thesis
    proof (cases r)
      case i: (Inl e)
      have "gather net sched [Waiting p u (u' # us') es] (send u referer w) =
          gather net rest [Waiting p u' us' (es @ [(u, e)])]
            (send u' referer (log_exception e w1))"
        by (simp add: sched v resume_def next_mirror_def Inr ow i)
      also note Cons.IH[OF len, of u' "es @ [(u, e)]" "log_exception e w1"]
      finally show ?thesis by (simp add: attempt_fetched[of net u page, OF Inr] ow i)
    next
      case j: (Inr x)
      then show ?thesis
        by (simp add: sched v resume_def Inr ow attempt_fetched[of net u page, OF Inr]
            gather_done verdict_Done)
    qed
  qed
qed

lemma batch_of_one:
  assumes "length urls \<le> length sched"
  shows "batch_download net sched [(to_path, urls)] w =
     (case download_item net to_path urls w of
        (Inl e, w') \<Rightarrow> (Raised e, [Done (Inl e)], w')
      | (Inr r, w') \<Rightarrow> (Returned, [Done (Inr ())], w'))"
proof (cases "exists (fs w) to_path")
  case True
  then show ?thesis
    by (simp add: batch_download_def start_def download_item_def gather_done verdict_Done)
next
  case False
  show ?thesis
  proof (cases "mkdir (faults w) (fs w) (parent to_path) True True")
    case (Inl e)
    with False show ?thesis
      by (simp add: batch_download_def start_def download_item_def gather_done verdict_Done)
  next
    case (Inr g)
    show ?thesis
    proof (cases urls)
      case Nil
      with False Inr show ?thesis
        by (simp add: batch_download_def start_def download_item_def next_mirror_def gather_done
            verdict_Done)
    next
      case (Cons u us)
      with assms have "length us < length sched" by simp
      from gather_single[OF this, of net to_path u "[]" "w\<lparr>fs := g\<rparr>"] False Inr Cons
      show ?thesis
        by (simp add: batch_download_def start_def download_item_def next_mirror_def)
    qed
  qed
qed

end
